theory Spec2Isabelle
  imports Main
begin

section \<open>SourceLocation.range\<close>

text \<open>
  \<^verbatim>\<open>SourceLocation\<close> is an immutable triple of a lexer, a start offset and an end offset.
  The lexer is an object compared by reference (\<^verbatim>\<open>!==\<close>): it is modelled by the
  identity of that object, a natural number. An optional argument or field
  (\<^verbatim>\<open>first?\<close>, \<^verbatim>\<open>loc?\<close>) is an \<open>option\<close>, \<open>None\<close> standing for \<^verbatim>\<open>undefined\<close>.
\<close>

record SourceLocation =
  lexer :: nat
  start :: int
  end' :: int

text \<open>A location provider \<^verbatim>\<open>{ loc?: SourceLocation }\<close> (a token or a parse node).\<close>

record provider =
  loc :: "SourceLocation option"

definition SourceLocation_range ::
    "provider option \<Rightarrow> provider option \<Rightarrow> SourceLocation option" where
  "SourceLocation_range first second =
     (case second of
        None \<Rightarrow> (case first of None \<Rightarrow> None | Some f \<Rightarrow> loc f)
      | Some s \<Rightarrow>
          (case first of
             None \<Rightarrow> None
           | Some f \<Rightarrow>
               (case loc f of
                  None \<Rightarrow> None
                | Some fl \<Rightarrow>
                    (case loc s of
                       None \<Rightarrow> None
                     | Some sl \<Rightarrow>
                         if lexer fl \<noteq> lexer sl then None
                         else Some \<lparr>lexer = lexer fl, start = start fl, end' = end' sl\<rparr>))))"

section \<open>The visual node tree (domTree, tree)\<close>

text \<open>
  Every visual node carries the observable record of \<^verbatim>\<open>HtmlDomNode\<close>: its classes, its
  attributes, its height, depth and maximal font size, and its inline style. The variants
  (\<^verbatim>\<open>instanceof\<close> tests of the builders) are the \<open>kind\<close>. JavaScript numbers are kept
  abstract: they are values of a type \<open>'n\<close>, and the arithmetic the code performs on them
  (\<^verbatim>\<open>+\<close>, unary \<^verbatim>\<open>-\<close>, \<^verbatim>\<open>*\<close>, \<^verbatim>\<open>/\<close>, \<^verbatim>\<open>Math.max\<close>, conversion to a string) is a
  parameter, so nothing below depends on how floating point rounds. An object used as a
  dictionary (\<^verbatim>\<open>style\<close>, \<^verbatim>\<open>attributes\<close>) is an association list in insertion order, the
  order in which \<^verbatim>\<open>for ... in\<close> enumerates it. The side channel \<^verbatim>\<open>isMiddle\<close> that the
  \<^verbatim>\<open>\middle\<close> builder puts on a span is the last field.
\<close>

datatype nodeKind = Span | Anchor | DocumentFragment | SymbolNode string | Img string string

record ('n, 'o) domFields =
  kind :: nodeKind
  classes :: "string list"
  attributes :: "(string \<times> string) list"
  height :: 'n
  depth :: 'n
  maxFontSize :: 'n
  style :: "(string \<times> string) list"
  isMiddle :: "(string \<times> 'o) option"

datatype ('n, 'o) node = Node (fld: "('n, 'o) domFields") (children: "('n, 'o) node list")

text \<open>Assignment to a property of an object: an existing key keeps its place.\<close>

fun setProp :: "string \<Rightarrow> string \<Rightarrow> (string \<times> string) list \<Rightarrow> (string \<times> string) list" where
  "setProp k v [] = [(k, v)]"
| "setProp k v ((k', v') # ps) = (if k' = k then (k, v) # ps else (k', v') # setProp k v ps)"

definition hasClass :: "('n, 'o) node \<Rightarrow> string \<Rightarrow> bool" where
  "hasClass n className = (className \<in> set (classes (fld n)))"

text \<open>\<^verbatim>\<open>node.classes[0]\<close>: \<^verbatim>\<open>undefined\<close> (here \<open>None\<close>) on an empty array.\<close>

definition class0 :: "('n, 'o) node \<Rightarrow> string option" where
  "class0 n = (case classes (fld n) of [] \<Rightarrow> None | c # _ \<Rightarrow> Some c)"

definition setStyle :: "string \<Rightarrow> string \<Rightarrow> ('n, 'o) node \<Rightarrow> ('n, 'o) node" where
  "setStyle k v n = Node ((fld n)\<lparr>style := setProp k v (style (fld n))\<rparr>) (children n)"

definition setAttribute :: "string \<Rightarrow> string \<Rightarrow> ('n, 'o) node \<Rightarrow> ('n, 'o) node" where
  "setAttribute k v n =
     Node ((fld n)\<lparr>attributes := setProp k v (attributes (fld n))\<rparr>) (children n)"

definition setClasses :: "string list \<Rightarrow> ('n, 'o) node \<Rightarrow> ('n, 'o) node" where
  "setClasses cs n = Node ((fld n)\<lparr>classes := cs\<rparr>) (children n)"

definition setChildren :: "('n, 'o) node list \<Rightarrow> ('n, 'o) node \<Rightarrow> ('n, 'o) node" where
  "setChildren cs n = Node (fld n) cs"

section \<open>Parse nodes and errors\<close>

datatype Mode = Math | Text

text \<open>
  The type of a parse node is one of the keys of \<^verbatim>\<open>ParseNodeTypes\<close> in \<^verbatim>\<open>parseNode.ts\<close>
  (the type \<^verbatim>\<open>NodeType\<close>). The nodes that the sources build, read or check have a
  constructor of their own below; \<open>nodeType\<close> lists the other keys.
\<close>

datatype nodeType =
    T_array | T_keyVals | T_op | T_ordgroup | T_raw | T_size | T_supsub | T_verb
  | T_accent | T_accentUnder | T_cr | T_enclose | T_environment | T_font | T_genfrac
  | T_horizBrace | T_htmlmathml | T_includegraphics | T_infix | T_kern | T_lap
  | T_mathchoice | T_mclass | T_operatorname | T_overline | T_phantom | T_hphantom
  | T_vphantom | T_raisebox | T_rule | T_smash | T_sqrt | T_underline | T_xArrow

fun nodeTypeName :: "nodeType \<Rightarrow> string" where
  "nodeTypeName T_array = ''array''"
| "nodeTypeName T_keyVals = ''keyVals''"
| "nodeTypeName T_op = ''op''"
| "nodeTypeName T_ordgroup = ''ordgroup''"
| "nodeTypeName T_raw = ''raw''"
| "nodeTypeName T_size = ''size''"
| "nodeTypeName T_supsub = ''supsub''"
| "nodeTypeName T_verb = ''verb''"
| "nodeTypeName T_accent = ''accent''"
| "nodeTypeName T_accentUnder = ''accentUnder''"
| "nodeTypeName T_cr = ''cr''"
| "nodeTypeName T_enclose = ''enclose''"
| "nodeTypeName T_environment = ''environment''"
| "nodeTypeName T_font = ''font''"
| "nodeTypeName T_genfrac = ''genfrac''"
| "nodeTypeName T_horizBrace = ''horizBrace''"
| "nodeTypeName T_htmlmathml = ''htmlmathml''"
| "nodeTypeName T_includegraphics = ''includegraphics''"
| "nodeTypeName T_infix = ''infix''"
| "nodeTypeName T_kern = ''kern''"
| "nodeTypeName T_lap = ''lap''"
| "nodeTypeName T_mathchoice = ''mathchoice''"
| "nodeTypeName T_mclass = ''mclass''"
| "nodeTypeName T_operatorname = ''operatorname''"
| "nodeTypeName T_overline = ''overline''"
| "nodeTypeName T_phantom = ''phantom''"
| "nodeTypeName T_hphantom = ''hphantom''"
| "nodeTypeName T_vphantom = ''vphantom''"
| "nodeTypeName T_raisebox = ''raisebox''"
| "nodeTypeName T_rule = ''rule''"
| "nodeTypeName T_smash = ''smash''"
| "nodeTypeName T_sqrt = ''sqrt''"
| "nodeTypeName T_underline = ''underline''"
| "nodeTypeName T_xArrow = ''xArrow''"

text \<open>
  The parse nodes, each with the fields of its interface in \<^verbatim>\<open>parseNode.ts\<close> (the mode
  first). The symbol nodes (\<^verbatim>\<open>SymbolParseNode\<close>) are \<open>Atom\<close>, \<open>Mathord\<close>, \<open>Textord\<close>,
  \<open>Spacing\<close>, \<open>AccentToken\<close> and \<open>OpToken\<close>; \<open>TextGroup\<close> is the node of type \<^verbatim>\<open>text\<close>
  with its body and its optional font. \<open>Leftright\<close> keeps its body optional: the type says
  it is always there, \<^verbatim>\<open>assertParsed\<close> checks it at run time. \<open>Other\<close> is a node of any
  other type, its further fields left out; its builder is a parameter. The fields that
  the sources read from a node they have checked are selectors: \<open>textOf\<close> (\<^verbatim>\<open>.text\<close>),
  \<open>familyOf\<close> (\<^verbatim>\<open>.family\<close>), \<open>colorOf\<close> (\<^verbatim>\<open>.color\<close>), \<open>urlOf\<close> (\<^verbatim>\<open>.url\<close>) and \<open>delimOf\<close>
  (\<^verbatim>\<open>.delim\<close>).
\<close>

datatype pnode =
    Atom Mode (familyOf: string) (textOf: string)
  | Mathord Mode (textOf: string)
  | Textord Mode (textOf: string)
  | Spacing Mode (textOf: string)
  | AccentToken Mode (textOf: string)
  | OpToken Mode (textOf: string)
  | Color Mode string "pnode list"
  | ColorToken Mode (colorOf: string)
  | Url Mode (urlOf: string)
  | TextGroup Mode "pnode list" "string option"
  | Href Mode string "pnode list"
  | Leftright Mode "pnode list option" string string
  | LeftrightRight Mode (delimOf: string)
  | Middle Mode string
  | Delimsizing Mode nat string string
  | Sizing Mode nat "pnode list"
  | Styling Mode string "pnode list"
  | Tag Mode "pnode list" "pnode list"
  | Other nodeType Mode

text \<open>\<^verbatim>\<open>node.type\<close>.\<close>

definition typeOf :: "pnode \<Rightarrow> string" where
  "typeOf g =
     (case g of
        Atom m f t \<Rightarrow> ''atom'' | Mathord m t \<Rightarrow> ''mathord'' | Textord m t \<Rightarrow> ''textord''
      | Spacing m t \<Rightarrow> ''spacing'' | AccentToken m t \<Rightarrow> ''accent-token''
      | OpToken m t \<Rightarrow> ''op-token''
      | Color m c b \<Rightarrow> ''color'' | ColorToken m c \<Rightarrow> ''color-token'' | Url m u \<Rightarrow> ''url''
      | TextGroup m b f \<Rightarrow> ''text'' | Href m h b \<Rightarrow> ''href''
      | Leftright m b l r \<Rightarrow> ''leftright'' | LeftrightRight m d \<Rightarrow> ''leftright-right''
      | Middle m d \<Rightarrow> ''middle''
      | Delimsizing m s c d \<Rightarrow> ''delimsizing'' | Sizing m s b \<Rightarrow> ''sizing''
      | Styling m s b \<Rightarrow> ''styling'' | Tag m b t \<Rightarrow> ''tag'' | Other t m \<Rightarrow> nodeTypeName t)"

text \<open>What the code throws: \<^verbatim>\<open>ParseError\<close>, \<^verbatim>\<open>TypeError\<close> and the plain \<^verbatim>\<open>Error\<close>.\<close>

datatype error = ParseError string | TypeError string | Error string

text \<open>
  The outcome of a call: it returns a value, it throws, or it does not return (the loops of
  \<^verbatim>\<open>traverseNonSpaceNodes\<close> are not bounded by their text).
\<close>

datatype 'a result = Ok 'a | Throw error | NoReturn

definition isParseError :: "error \<Rightarrow> bool" where
  "isParseError e = (case e of ParseError _ \<Rightarrow> True | _ \<Rightarrow> False)"

subsection \<open>The checks of parseNode.ts\<close>

text \<open>
  A node that may be \<^verbatim>\<open>null\<close> is an optional node. \<^verbatim>\<open>checkNodeType\<close> returns the node when
  it is there and of the given type, and \<^verbatim>\<open>undefined\<close> (here \<open>None\<close>) otherwise;
  \<^verbatim>\<open>assertNodeType\<close> throws a plain \<^verbatim>\<open>Error\<close> in that case. \<^verbatim>\<open>String(node)\<close> of the absent node
  is \<^verbatim>\<open>null\<close>.
\<close>

definition checkNodeType :: "pnode option \<Rightarrow> string \<Rightarrow> pnode option" where
  "checkNodeType node type' =
     (case node of
        Some n \<Rightarrow> if typeOf n = type' then Some n else None
      | None \<Rightarrow> None)"

definition assertNodeType :: "pnode option \<Rightarrow> string \<Rightarrow> pnode result" where
  "assertNodeType node type' =
     (case checkNodeType node type' of
        Some typedNode \<Rightarrow> Ok typedNode
      | None \<Rightarrow>
          Throw (Error (''Expected node of type '' @ type' @ '', but got ''
                        @ (case node of
                             Some n \<Rightarrow> ''node of type '' @ typeOf n
                           | None \<Rightarrow> ''null''))))"

definition checkAtomFamily :: "pnode option \<Rightarrow> string \<Rightarrow> pnode option" where
  "checkAtomFamily node family =
     (case node of
        Some n \<Rightarrow> if typeOf n = ''atom'' \<and> familyOf n = family then Some n else None
      | None \<Rightarrow> None)"

definition assertAtomFamily :: "pnode option \<Rightarrow> string \<Rightarrow> pnode result" where
  "assertAtomFamily node family =
     (case checkAtomFamily node family of
        Some typedNode \<Rightarrow> Ok typedNode
      | None \<Rightarrow>
          Throw (Error (''Expected node of type '' @ [CHR 0x22] @ ''atom'' @ [CHR 0x22]
                        @ '' and family '' @ [CHR 0x22] @ family @ [CHR 0x22] @ '', but got ''
                        @ (case node of
                             Some n \<Rightarrow>
                               if typeOf n = ''atom'' then ''atom of family '' @ familyOf n
                               else ''node of type '' @ typeOf n
                           | None \<Rightarrow> ''null''))))"

text \<open>
  The table \<^verbatim>\<open>NON_ATOMS\<close> of \<^verbatim>\<open>symbols\<close> is not in the sources. Its keys are the types of
  the symbol nodes other than \<^verbatim>\<open>atom\<close>: the check returns a \<^verbatim>\<open>SymbolParseNode\<close>, which
  \<^verbatim>\<open>parseNode.ts\<close> declares as \<^verbatim>\<open>atom | accentToken | mathord | opToken | spacing | textord\<close>.
\<close>

definition NON_ATOMS :: "string list" where
  "NON_ATOMS = [''accent-token'', ''mathord'', ''op-token'', ''spacing'', ''textord'']"

definition checkSymbolNodeType :: "pnode option \<Rightarrow> pnode option" where
  "checkSymbolNodeType node =
     (case node of
        Some n \<Rightarrow> if typeOf n = ''atom'' \<or> typeOf n \<in> set NON_ATOMS then Some n else None
      | None \<Rightarrow> None)"

definition assertSymbolNodeType :: "pnode option \<Rightarrow> pnode result" where
  "assertSymbolNodeType node =
     (case checkSymbolNodeType node of
        Some typedNode \<Rightarrow> Ok typedNode
      | None \<Rightarrow>
          Throw (Error (''Expected node of symbol group type, but got ''
                        @ (case node of
                             Some n \<Rightarrow> ''node of type '' @ typeOf n
                           | None \<Rightarrow> ''null''))))"

subsection \<open>The checks of domTree\<close>

text \<open>
  \<^verbatim>\<open>assertSymbolDomNode\<close> and \<^verbatim>\<open>assertSpan\<close>: an \<^verbatim>\<open>instanceof\<close> test, and a plain \<^verbatim>\<open>Error\<close>
  when it fails. The classes of \<^verbatim>\<open>domTree\<close> define no \<^verbatim>\<open>toString\<close>, so \<^verbatim>\<open>String(group)\<close> is
  \<^verbatim>\<open>[object Object]\<close>.
\<close>

definition assertSymbolDomNode :: "('n, 'o) node \<Rightarrow> ('n, 'o) node result" where
  "assertSymbolDomNode group' =
     (case kind (fld group') of
        SymbolNode t \<Rightarrow> Ok group'
      | _ \<Rightarrow> Throw (Error (''Expected symbolNode but got '' @ ''[object Object]'' @ ''.'')))"

definition assertSpan :: "('n, 'o) node \<Rightarrow> ('n, 'o) node result" where
  "assertSpan group' =
     (case kind (fld group') of
        Span \<Rightarrow> Ok group'
      | _ \<Rightarrow> Throw (Error (''Expected span<HtmlDomNode> but got '' @ ''[object Object]''
                             @ ''.'')))"


datatype Style = DISPLAY | TEXT | SCRIPT | SCRIPTSCRIPT

text \<open>\<^verbatim>\<open>styleMap[node.style]\<close>: \<^verbatim>\<open>undefined\<close> for a key that is not one of the four.\<close>

definition styleMap :: "string \<Rightarrow> Style option" where
  "styleMap s =
     (if s = ''display'' then Some DISPLAY
      else if s = ''text'' then Some TEXT
      else if s = ''script'' then Some SCRIPT
      else if s = ''scriptscript'' then Some SCRIPTSCRIPT
      else None)"

section \<open>The collaborators that are not in the sources\<close>

text \<open>
  \<^verbatim>\<open>Options\<close>, \<^verbatim>\<open>buildCommon\<close>, \<^verbatim>\<open>delimiter\<close>, \<^verbatim>\<open>spacingData\<close>, \<^verbatim>\<open>utils\<close> and the registry of
  the other group builders are imported by the sources but are not part of them. They are
  parameters: every function below takes the record \<open>X\<close> of what it calls, and every
  theorem holds for all of them. \<open>'n\<close> is the type of numbers, \<open>'o\<close> the type of
  \<^verbatim>\<open>Options\<close> values. A measurement is a number with its unit.
\<close>

type_synonym 'n measurement = "'n \<times> string"

record ('n, 'o) ext =
  num0 :: 'n
  numAdd :: "'n \<Rightarrow> 'n \<Rightarrow> 'n"
  numNeg :: "'n \<Rightarrow> 'n"
  numMul :: "'n \<Rightarrow> 'n \<Rightarrow> 'n"
  numDiv :: "'n \<Rightarrow> 'n \<Rightarrow> 'n"
  numMax :: "'n \<Rightarrow> 'n \<Rightarrow> 'n"
  numStr :: "'n \<Rightarrow> string"
  isTight :: "'o \<Rightarrow> bool"
  getColor :: "'o \<Rightarrow> string option"
  withColor :: "'o \<Rightarrow> string \<Rightarrow> 'o"
  havingSize :: "'o \<Rightarrow> nat \<Rightarrow> 'o"
  havingStyle :: "'o \<Rightarrow> Style option \<Rightarrow> 'o"
  optSize :: "'o \<Rightarrow> nat"
  sizeMultiplier :: "'o \<Rightarrow> 'n"
  sizingClasses :: "'o \<Rightarrow> 'o \<Rightarrow> string list"
  baseSizingClasses :: "'o \<Rightarrow> string list"
  sizeElementFromChildren :: "('n, 'o) node list \<Rightarrow> 'n \<times> 'n \<times> 'n"
  makeGlue :: "'n measurement \<Rightarrow> 'o \<Rightarrow> ('n, 'o) node"
  mathsym :: "string \<Rightarrow> Mode \<Rightarrow> 'o \<Rightarrow> string list \<Rightarrow> ('n, 'o) node"
  makeOrd :: "pnode \<Rightarrow> 'o \<Rightarrow> string \<Rightarrow> ('n, 'o) node result"
  leftRightDelim ::
    "string \<Rightarrow> 'n \<Rightarrow> 'n \<Rightarrow> 'o \<Rightarrow> Mode \<Rightarrow> string list \<Rightarrow> ('n, 'o) node result"
  sizedDelim :: "string \<Rightarrow> nat \<Rightarrow> 'o \<Rightarrow> Mode \<Rightarrow> string list \<Rightarrow> ('n, 'o) node result"
  spacings :: "string \<Rightarrow> string \<Rightarrow> 'n measurement option"
  tightSpacings :: "string \<Rightarrow> string \<Rightarrow> 'n measurement option"
  otherBuilders :: "string \<Rightarrow> (pnode \<Rightarrow> 'o \<Rightarrow> ('n, 'o) node result) option"

section \<open>Node constructors (domTree, tree, buildCommon)\<close>

text \<open>
  \<^verbatim>\<open>initNode\<close>, shared by the constructors of \<^verbatim>\<open>Span\<close> and \<^verbatim>\<open>Anchor\<close>. An absent argument
  is \<open>None\<close>. A colour is stored only when it is truthy: a non-empty string.
\<close>

definition initNode ::
    "('n, 'o) ext \<Rightarrow> nodeKind \<Rightarrow> string list option \<Rightarrow> 'o option \<Rightarrow>
       (string \<times> string) list option \<Rightarrow> ('n, 'o) domFields" where
  "initNode X k classes' options style' =
     (let cs = (case classes' of None \<Rightarrow> [] | Some c \<Rightarrow> c);
          st = (case style' of None \<Rightarrow> [] | Some s \<Rightarrow> s);
          cs' = (case options of
                   None \<Rightarrow> cs
                 | Some opts \<Rightarrow> if isTight X opts then cs @ [''mtight''] else cs);
          st' = (case options of
                   None \<Rightarrow> st
                 | Some opts \<Rightarrow>
                     (case getColor X opts of
                        None \<Rightarrow> st
                      | Some c \<Rightarrow> if c \<noteq> [] then setProp ''color'' c st else st))
      in \<lparr>kind = k, classes = cs', attributes = [], height = num0 X, depth = num0 X,
          maxFontSize = num0 X, style = st', isMiddle = None\<rparr>)"

definition newSpan ::
    "('n, 'o) ext \<Rightarrow> string list option \<Rightarrow> ('n, 'o) node list option \<Rightarrow> 'o option \<Rightarrow>
       (string \<times> string) list option \<Rightarrow> ('n, 'o) node" where
  "newSpan X classes' children' options style' =
     Node (initNode X Span classes' options style')
       (case children' of None \<Rightarrow> [] | Some c \<Rightarrow> c)"

definition newAnchor ::
    "('n, 'o) ext \<Rightarrow> string \<Rightarrow> string list \<Rightarrow> ('n, 'o) node list \<Rightarrow> 'o \<Rightarrow> ('n, 'o) node" where
  "newAnchor X href classes' children' options =
     setAttribute ''href'' href
       (Node (initNode X Anchor (Some classes') (Some options) None) children')"

definition newDocumentFragment :: "('n, 'o) ext \<Rightarrow> ('n, 'o) node list \<Rightarrow> ('n, 'o) node" where
  "newDocumentFragment X children' =
     Node \<lparr>kind = DocumentFragment, classes = [], attributes = [], height = num0 X,
           depth = num0 X, maxFontSize = num0 X, style = [], isMiddle = None\<rparr> children'"

text \<open>
  Modelled from the spec: \<^verbatim>\<open>buildCommon.makeSpan\<close>, \<^verbatim>\<open>makeFragment\<close> and \<^verbatim>\<open>makeAnchor\<close> are
  not in the sources. Each constructs the node (the constructors above are in the
  sources) and sets its height, depth and maximal font size from its children; how the
  three are computed from the children is the parameter \<open>sizeElementFromChildren\<close>.
\<close>

definition sized :: "('n, 'o) ext \<Rightarrow> ('n, 'o) node \<Rightarrow> ('n, 'o) node" where
  "sized X n =
     (case sizeElementFromChildren X (children n) of
        (h, d, m) \<Rightarrow> Node ((fld n)\<lparr>height := h, depth := d, maxFontSize := m\<rparr>) (children n))"

definition makeSpan ::
    "('n, 'o) ext \<Rightarrow> string list option \<Rightarrow> ('n, 'o) node list option \<Rightarrow> 'o option \<Rightarrow>
       (string \<times> string) list option \<Rightarrow> ('n, 'o) node" where
  "makeSpan X classes' children' options style' =
     sized X (newSpan X classes' children' options style')"

definition makeFragment :: "('n, 'o) ext \<Rightarrow> ('n, 'o) node list \<Rightarrow> ('n, 'o) node" where
  "makeFragment X children' = sized X (newDocumentFragment X children')"

definition makeAnchor ::
    "('n, 'o) ext \<Rightarrow> string \<Rightarrow> string list \<Rightarrow> ('n, 'o) node list \<Rightarrow> 'o \<Rightarrow> ('n, 'o) node" where
  "makeAnchor X href classes' children' options =
     sized X (newAnchor X href classes' children' options)"

definition makeNullDelimiter :: "('n, 'o) ext \<Rightarrow> 'o \<Rightarrow> string list \<Rightarrow> ('n, 'o) node" where
  "makeNullDelimiter X options classes' =
     (let moreClasses = [''nulldelimiter''] @ baseSizingClasses X options
      in makeSpan X (Some (classes' @ moreClasses)) None None None)"

section \<open>Root assembly (buildHTML)\<close>

definition buildHTMLUnbreakable ::
    "('n, 'o) ext \<Rightarrow> ('n, 'o) node list \<Rightarrow> 'o \<Rightarrow> ('n, 'o) node" where
  "buildHTMLUnbreakable X children' options =
     (let body = makeSpan X (Some [''base'']) (Some children') (Some options) None;
          strut = makeSpan X (Some [''strut'']) None None None;
          strut = setStyle ''height''
                    (numStr X (numAdd X (height (fld body)) (depth (fld body))) @ ''em'')
                    strut;
          strut = setStyle ''verticalAlign''
                    (numStr X (numNeg X (depth (fld body))) @ ''em'') strut
      in setChildren (strut # children body) body)"

text \<open>
  The inner \<^verbatim>\<open>while\<close> of the chunking loop: it moves the glue that follows an operator
  (\<^verbatim>\<open>mspace\<close> nodes that are not a \<^verbatim>\<open>newline\<close>) onto the operator's line and watches for
  \<^verbatim>\<open>nobreak\<close>. It returns what is left of the expression, the parts and the flag.
\<close>

fun postOperatorGlue ::
    "('n, 'o) node list \<Rightarrow> ('n, 'o) node list \<Rightarrow> bool \<Rightarrow>
       ('n, 'o) node list \<times> ('n, 'o) node list \<times> bool" where
  "postOperatorGlue [] parts nobreak = ([], parts, nobreak)"
| "postOperatorGlue (e # es) parts nobreak =
     (if hasClass e ''mspace'' \<and> \<not> hasClass e ''newline''
      then postOperatorGlue es (parts @ [e]) (if hasClass e ''nobreak'' then True else nobreak)
      else (e # es, parts, nobreak))"

text \<open>
  The \<^verbatim>\<open>for\<close> loop over the expression, on the elements that are left; \<open>children'\<close> and
  \<open>parts\<close> are the two arrays it fills. The last equation is the code after the loop.
\<close>

function chunks ::
    "('n, 'o) ext \<Rightarrow> 'o \<Rightarrow> ('n, 'o) node list \<Rightarrow> ('n, 'o) node list \<Rightarrow> ('n, 'o) node list \<Rightarrow>
       ('n, 'o) node list" where
  "chunks X options [] children' parts =
     (if length parts > 0 then children' @ [buildHTMLUnbreakable X parts options]
      else children')"
| "chunks X options (e # es) children' parts =
     (let parts = parts @ [e] in
      if hasClass e ''mbin'' \<or> hasClass e ''mrel'' \<or> hasClass e ''allowbreak'' then
        (case postOperatorGlue es parts False of
           (rest, parts, nobreak) \<Rightarrow>
             if \<not> nobreak
             then chunks X options rest (children' @ [buildHTMLUnbreakable X parts options]) []
             else chunks X options rest children' parts)
      else if hasClass e ''newline'' then
        (let parts = butlast parts in
         if length parts > 0
         then chunks X options es (children' @ [buildHTMLUnbreakable X parts options] @ [e]) []
         else chunks X options es (children' @ [e]) parts)
      else chunks X options es children' parts)"
  by pat_completeness auto
termination
proof (relation "measure (\<lambda>(X, options, es, children', parts). length es)")
  have le: "length (fst (postOperatorGlue es parts nb)) \<le> length es"
    for es :: "('n, 'o) node list" and parts nb
    by (induction es arbitrary: parts nb) (auto intro: le_SucI)
  show "wf (measure (\<lambda>(X :: ('n, 'o) ext, options :: 'o, es :: ('n, 'o) node list,
      children' :: ('n, 'o) node list, parts :: ('n, 'o) node list). length es))"
    by simp
  fix X :: "('n, 'o) ext" and options :: 'o and e :: "('n, 'o) node" and es children' parts
    and xa :: "('n, 'o) node list" and x y ya and nb :: bool and xb
  assume "xa = parts @ [e]" "(x, y) = postOperatorGlue es xa False"
  then have "x = fst (postOperatorGlue es xa False)"
    by (metis fst_conv)
  then have "length x \<le> length es"
    using le by simp
  then show "((X, options, x, children' @ [buildHTMLUnbreakable X ya options], []),
               X, options, e # es, children', parts)
             \<in> measure (\<lambda>(X, options, es, children', parts). length es)"
       and "((X, options, x, children', ya), X, options, e # es, children', parts)
             \<in> measure (\<lambda>(X, options, es, children', parts). length es)"
    by simp_all
qed auto

section \<open>Expression building (buildHTML): the two passes\<close>

definition binLeftCanceller :: "string list" where
  "binLeftCanceller = [''leftmost'', ''mbin'', ''mopen'', ''mrel'', ''mop'', ''mpunct'']"

definition binRightCanceller :: "string list" where
  "binRightCanceller = [''rightmost'', ''mrel'', ''mclose'', ''mpunct'']"

text \<open>The keys of \<^verbatim>\<open>DomEnum\<close>.\<close>

definition DomEnum :: "string list" where
  "DomEnum = [''mord'', ''mop'', ''mbin'', ''mrel'', ''mopen'', ''mclose'', ''mpunct'', ''minner'']"

text \<open>\<^verbatim>\<open>utils.contains(list, elem)\<close>, for an element that may be \<^verbatim>\<open>undefined\<close>.\<close>

definition contains :: "string list \<Rightarrow> string option \<Rightarrow> bool" where
  "contains list' elem = (case elem of None \<Rightarrow> False | Some e \<Rightarrow> e \<in> set list')"

text \<open>
  \<^verbatim>\<open>getTypeOfDomTree(node)\<close> as the spacing pass calls it, without a side:
  \<^verbatim>\<open>DomEnum[node.classes[0]] || null\<close>.
\<close>

definition getTypeOfDomTree :: "('n, 'o) node \<Rightarrow> string option" where
  "getTypeOfDomTree n =
     (case class0 n of None \<Rightarrow> None | Some c \<Rightarrow> if c \<in> set DomEnum then Some c else None)"

definition checkPartialGroup :: "('n, 'o) node \<Rightarrow> bool" where
  "checkPartialGroup n = (kind (fld n) = DocumentFragment \<or> kind (fld n) = Anchor)"

text \<open>\<^verbatim>\<open>node.classes[0] = c\<close>.\<close>

definition setClass0 :: "string \<Rightarrow> ('n, 'o) node \<Rightarrow> ('n, 'o) node" where
  "setClass0 c n = setClasses ((classes (fld n))[0 := c]) n"

text \<open>
  A callback of \<^verbatim>\<open>traverseNonSpaceNodes\<close> gets the current and the previous node, may
  write to both, and may return a node to insert: it maps the two nodes to the two nodes as
  it leaves them and to what it returns.
\<close>

type_synonym ('n, 'o) callback =
  "('n, 'o) node \<Rightarrow> ('n, 'o) node \<Rightarrow> ('n, 'o) node \<times> ('n, 'o) node \<times> ('n, 'o) node option"

text \<open>The callback of the first pass: bin cancellation.\<close>

definition cancelBin :: "('n, 'o) callback" where
  "cancelBin node' prev =
     (let prevType = class0 prev; type' = class0 node' in
      if prevType = Some ''mbin'' \<and> contains binRightCanceller type'
      then (node', setClass0 ''mord'' prev, None)
      else if type' = Some ''mbin'' \<and> contains binLeftCanceller prevType
      then (setClass0 ''mord'' node', prev, None)
      else (node', prev, None))"

text \<open>The callback of the second pass: the glue between two atoms.\<close>

definition spaceBetween :: "('n, 'o) ext \<Rightarrow> 'o \<Rightarrow> ('n, 'o) callback" where
  "spaceBetween X glueOptions node' prev =
     (let prevType = getTypeOfDomTree prev; type' = getTypeOfDomTree node';
          space = (case prevType of
                     None \<Rightarrow> None
                   | Some p \<Rightarrow>
                       (case type' of
                          None \<Rightarrow> None
                        | Some t \<Rightarrow>
                            if hasClass node' ''mtight'' then tightSpacings X p t
                            else spacings X p t))
      in (node', prev, (case space of None \<Rightarrow> None | Some sp \<Rightarrow> Some (makeGlue X sp glueOptions))))"

subsection \<open>The nodes as objects\<close>

text \<open>
  \<^verbatim>\<open>traverseNonSpaceNodes\<close> works on objects: it writes to the node it visited before, it
  inserts into the array that holds that node, and a closure it made earlier moves the loop
  counter of the invocation that made it. So the pass runs on a store. The store is the
  array \<open>root\<close> of objects: an object has an identity (a number), the node it is, and, when
  it is a partial group, the array of its children, again objects. An array is named by
  the object that owns it. Only the arrays the traversal can reach are in the store: the
  children of a node that is not a partial group stay inside the node.
\<close>

datatype ('n, 'o) obj = Obj (oid: nat) (onode: "('n, 'o) node") (okids: "('n, 'o) obj list")

datatype aref = TopArray | ChildrenOf nat

datatype nref = DummyPrev | ObjRef nat

fun findObj :: "nat \<Rightarrow> ('n, 'o) obj list \<Rightarrow> ('n, 'o) obj option" where
  "findObj l [] = None"
| "findObj l (Obj i n ks # xs) =
     (if i = l then Some (Obj i n ks)
      else (case findObj l ks of Some y \<Rightarrow> Some y | None \<Rightarrow> findObj l xs))"

fun modObj ::
    "nat \<Rightarrow> (('n, 'o) obj \<Rightarrow> ('n, 'o) obj) \<Rightarrow> ('n, 'o) obj list \<Rightarrow> ('n, 'o) obj list" where
  "modObj l f [] = []"
| "modObj l f (Obj i n ks # xs) =
     (if i = l then f (Obj i n ks) else Obj i n (modObj l f ks)) # modObj l f xs"

text \<open>
  The state of a pass: the store; the object \<^verbatim>\<open>dummyPrev\<close>, which is in no array; the
  variable \<^verbatim>\<open>i\<close> of every invocation; the next invocation and the next object identity;
  and the object \<^verbatim>\<open>prev\<close> with its two fields. The closure \<^verbatim>\<open>insertAfter\<close> is what it
  captured: the array \<^verbatim>\<open>nodes\<close>, the index, and the invocation whose \<^verbatim>\<open>i\<close> it increments.
\<close>

record ('n, 'o) tstate =
  root :: "('n, 'o) obj list"
  dummyPrev :: "('n, 'o) node"
  ivar :: "nat \<Rightarrow> nat"
  nframe :: nat
  nlabel :: nat
  prevNode :: nref
  prevInsertAfter :: "(aref \<times> nat \<times> nat) option"

definition getArr :: "('n, 'o) tstate \<Rightarrow> aref \<Rightarrow> ('n, 'o) obj list option" where
  "getArr st a =
     (case a of
        TopArray \<Rightarrow> Some (root st)
      | ChildrenOf l \<Rightarrow> (case findObj l (root st) of None \<Rightarrow> None | Some x \<Rightarrow> Some (okids x)))"

definition putArr :: "aref \<Rightarrow> ('n, 'o) obj list \<Rightarrow> ('n, 'o) tstate \<Rightarrow> ('n, 'o) tstate" where
  "putArr a ks st =
     (case a of
        TopArray \<Rightarrow> st\<lparr>root := ks\<rparr>
      | ChildrenOf l \<Rightarrow> st\<lparr>root := modObj l (\<lambda>x. Obj (oid x) (onode x) ks) (root st)\<rparr>)"

definition getNode :: "('n, 'o) tstate \<Rightarrow> nref \<Rightarrow> ('n, 'o) node option" where
  "getNode st r =
     (case r of
        DummyPrev \<Rightarrow> Some (dummyPrev st)
      | ObjRef l \<Rightarrow> (case findObj l (root st) of None \<Rightarrow> None | Some x \<Rightarrow> Some (onode x)))"

definition putNode :: "nref \<Rightarrow> ('n, 'o) node \<Rightarrow> ('n, 'o) tstate \<Rightarrow> ('n, 'o) tstate" where
  "putNode r n st =
     (case r of
        DummyPrev \<Rightarrow> st\<lparr>dummyPrev := n\<rparr>
      | ObjRef l \<Rightarrow> st\<lparr>root := modObj l (\<lambda>x. Obj (oid x) n (okids x)) (root st)\<rparr>)"

text \<open>\<^verbatim>\<open>i++\<close> in the invocation \<open>f\<close>, and the start of an invocation (\<^verbatim>\<open>let i = 0\<close>).\<close>

definition incr :: "nat \<Rightarrow> ('n, 'o) tstate \<Rightarrow> ('n, 'o) tstate" where
  "incr f st = st\<lparr>ivar := (ivar st)(f := ivar st f + 1)\<rparr>"

definition newFrame :: "('n, 'o) tstate \<Rightarrow> ('n, 'o) tstate" where
  "newFrame st = st\<lparr>ivar := (ivar st)(nframe st := 0), nframe := nframe st + 1\<rparr>"

text \<open>
  \<^verbatim>\<open>nodes.splice(k, 0, n)\<close> for a node \<open>n\<close> that the callback has just made: it enters the
  store as a new object. A start beyond the end of the array is the end.
\<close>

definition splice :: "aref \<Rightarrow> nat \<Rightarrow> ('n, 'o) node \<Rightarrow> ('n, 'o) tstate \<Rightarrow> ('n, 'o) tstate option" where
  "splice a k n st =
     (case getArr st a of
        None \<Rightarrow> None
      | Some arr \<Rightarrow>
          Some ((putArr a (take k arr @ [Obj (nlabel st) n []] @ drop k arr) st)
                  \<lparr>nlabel := nlabel st + 1\<rparr>))"

text \<open>
  One turn of the loop on a node that is neither a partial group nor a space: the call of
  the callback, the insertion of what it returns, and the two assignments to \<^verbatim>\<open>prev\<close>.
\<close>

definition visit ::
    "('n, 'o) callback \<Rightarrow> ('n, 'o) tstate \<Rightarrow> aref \<Rightarrow> nat \<Rightarrow> ('n, 'o) obj \<Rightarrow>
       ('n, 'o) tstate option" where
  "visit callback st nodes fid x =
     (case getNode st (prevNode st) of
        None \<Rightarrow> None
      | Some pv \<Rightarrow>
          (case callback (onode x) pv of
             (node', prev', result') \<Rightarrow>
               (let st1 = putNode (ObjRef (oid x)) node' (putNode (prevNode st) prev' st) in
                case (case result' of
                        None \<Rightarrow> Some st1
                      | Some r \<Rightarrow>
                          (case prevInsertAfter st1 of
                             Some (a, index', f) \<Rightarrow>
                               map_option (incr f) (splice a (index' + 1) r st1)
                           | None \<Rightarrow> map_option (incr fid) (splice nodes 0 r st1)))
                of
                  None \<Rightarrow> None
                | Some st2 \<Rightarrow>
                    Some (st2\<lparr>prevNode := ObjRef (oid x),
                              prevInsertAfter := Some (nodes, ivar st2 fid, fid)\<rparr>))))"

text \<open>
  The \<^verbatim>\<open>for\<close> loop of the invocation \<open>fid\<close> on the array \<open>nodes\<close>. The recursive call on a
  partial group is the loop of a new invocation on the array of its children (it passes
  no \<^verbatim>\<open>next\<close>). \<open>None\<close>: the loop does not return.
\<close>

partial_function (option) traverseLoop ::
    "('n, 'o) callback \<Rightarrow> ('n, 'o) tstate \<Rightarrow> aref \<Rightarrow> nat \<Rightarrow> ('n, 'o) tstate option" where
  "traverseLoop callback st nodes fid =
     (case getArr st nodes of
        None \<Rightarrow> None
      | Some arr \<Rightarrow>
          if \<not> ivar st fid < length arr then Some st
          else if checkPartialGroup (onode (arr ! ivar st fid)) then
            Option.bind
              (traverseLoop callback (newFrame st)
                 (ChildrenOf (oid (arr ! ivar st fid))) (nframe st))
              (\<lambda>st1. traverseLoop callback (incr fid st1) nodes fid)
          else if class0 (onode (arr ! ivar st fid)) = Some ''mspace'' then
            traverseLoop callback (incr fid st) nodes fid
          else
            (case visit callback st nodes fid (arr ! ivar st fid) of
               None \<Rightarrow> None
             | Some st3 \<Rightarrow> traverseLoop callback (incr fid st3) nodes fid))"

declare traverseLoop.simps [code]

text \<open>
  \<^verbatim>\<open>traverseNonSpaceNodes(nodes, callback, prev, next)\<close>. The node \<^verbatim>\<open>next\<close> is pushed as an
  object and popped at the end; what is popped is returned beside the state, since the
  caller still holds that object.
\<close>

definition traverseNonSpaceNodes ::
    "('n, 'o) callback \<Rightarrow> ('n, 'o) tstate \<Rightarrow> aref \<Rightarrow> ('n, 'o) obj option \<Rightarrow>
       (('n, 'o) tstate \<times> ('n, 'o) obj option) option" where
  "traverseNonSpaceNodes callback st nodes next' =
     (case (case next' of
              None \<Rightarrow> Some st
            | Some nx \<Rightarrow>
                (case getArr st nodes of
                   None \<Rightarrow> None
                 | Some arr \<Rightarrow> Some (putArr nodes (arr @ [nx]) st)))
      of
        None \<Rightarrow> None
      | Some st1 \<Rightarrow>
          (case traverseLoop callback (newFrame st1) nodes (nframe st1) of
             None \<Rightarrow> None
           | Some st2 \<Rightarrow>
               (case next' of
                  None \<Rightarrow> Some (st2, None)
                | Some _ \<Rightarrow>
                    (case getArr st2 nodes of
                       None \<Rightarrow> None
                     | Some arr \<Rightarrow>
                         Some (putArr nodes (butlast arr) st2,
                               if arr = [] then None else Some (last arr))))))"

text \<open>
  The built nodes enter the store numbered in the order of the traversal, and are read
  back from it when the passes are done.
\<close>

fun toObjs :: "nat \<Rightarrow> ('n, 'o) node list \<Rightarrow> ('n, 'o) obj list \<times> nat" where
  "toObjs c [] = ([], c)"
| "toObjs c (Node f cs # ns) =
     (if checkPartialGroup (Node f cs) then
        (case toObjs (Suc c) cs of
           (ks, c1) \<Rightarrow> (case toObjs c1 ns of (os, c2) \<Rightarrow> (Obj c (Node f cs) ks # os, c2)))
      else (case toObjs (Suc c) ns of (os, c1) \<Rightarrow> (Obj c (Node f cs) [] # os, c1)))"

fun ofObj :: "('n, 'o) obj \<Rightarrow> ('n, 'o) node" where
  "ofObj (Obj l n ks) = (if checkPartialGroup n then setChildren (map ofObj ks) n else n)"

text \<open>
  The part of \<^verbatim>\<open>buildExpression\<close> after the groups are built, for a real group: the options
  of the glue, the two dummy spans, and the two passes over the array \<^verbatim>\<open>groups\<close>.
\<close>

definition truthy :: "string option \<Rightarrow> string \<Rightarrow> string" where
  "truthy s d = (case s of None \<Rightarrow> d | Some c \<Rightarrow> if c = [] then d else c)"

definition cancelAndSpace ::
    "('n, 'o) ext \<Rightarrow> pnode list \<Rightarrow> 'o \<Rightarrow> string option \<times> string option \<Rightarrow>
       ('n, 'o) node list \<Rightarrow> ('n, 'o) node list result" where
  "cancelAndSpace X expression options surrounding groups =
     (let glueOptions =
            (case expression of
               [Sizing m size' body] \<Rightarrow> havingSize X options size'
             | [Styling m style' body] \<Rightarrow> havingStyle X options (styleMap style')
             | _ \<Rightarrow> options);
          dummyPrev' = makeSpan X (Some [truthy (fst surrounding) ''leftmost'']) (Some [])
                         (Some options) None;
          dummyNext = makeSpan X (Some [truthy (snd surrounding) ''rightmost'']) (Some [])
                         (Some options) None
      in case toObjs 0 groups of
           (objs, c) \<Rightarrow>
             (case traverseNonSpaceNodes cancelBin
                     \<lparr>root = objs, dummyPrev = dummyPrev', ivar = (\<lambda>f. 0), nframe = 0,
                      nlabel = Suc c, prevNode = DummyPrev, prevInsertAfter = None\<rparr>
                     TopArray (Some (Obj c dummyNext [])) of
                None \<Rightarrow> NoReturn
              | Some (st1, None) \<Rightarrow> NoReturn
              | Some (st1, Some nx) \<Rightarrow>
                  (case traverseNonSpaceNodes (spaceBetween X glueOptions)
                          (st1\<lparr>prevNode := DummyPrev, prevInsertAfter := None\<rparr>)
                          TopArray (Some nx) of
                     None \<Rightarrow> NoReturn
                   | Some (st2, nx') \<Rightarrow> Ok (map ofObj (root st2)))))"

subsection \<open>The builders of delimsizing.ts\<close>

text \<open>The first loop of the \<^verbatim>\<open>leftright\<close> builder, with its three variables.\<close>

fun innerExtent ::
    "('n, 'o) ext \<Rightarrow> ('n, 'o) node list \<Rightarrow> 'n \<Rightarrow> 'n \<Rightarrow> bool \<Rightarrow> 'n \<times> 'n \<times> bool" where
  "innerExtent X [] innerHeight innerDepth hadMiddle = (innerHeight, innerDepth, hadMiddle)"
| "innerExtent X (n # ns) innerHeight innerDepth hadMiddle =
     (if isMiddle (fld n) \<noteq> None then innerExtent X ns innerHeight innerDepth True
      else innerExtent X ns (numMax X (height (fld n)) innerHeight)
             (numMax X (depth (fld n)) innerDepth) hadMiddle)"

text \<open>The second loop, over the elements after the left delimiter.\<close>

fun resizeMiddles ::
    "('n, 'o) ext \<Rightarrow> Mode \<Rightarrow> 'n \<Rightarrow> 'n \<Rightarrow> ('n, 'o) node list \<Rightarrow> ('n, 'o) node list result" where
  "resizeMiddles X mode' innerHeight innerDepth [] = Ok []"
| "resizeMiddles X mode' innerHeight innerDepth (middleDelim # ms) =
     (case (case isMiddle (fld middleDelim) of
              Some (delim, opts) \<Rightarrow> leftRightDelim X delim innerHeight innerDepth opts mode' []
            | None \<Rightarrow> Ok middleDelim) of
        Ok m \<Rightarrow>
          (case resizeMiddles X mode' innerHeight innerDepth ms of
             Ok ms' \<Rightarrow> Ok (m # ms')
           | Throw e \<Rightarrow> Throw e
           | NoReturn \<Rightarrow> NoReturn)
      | Throw e \<Rightarrow> Throw e
      | NoReturn \<Rightarrow> NoReturn)"

text \<open>The \<^verbatim>\<open>leftright\<close> builder from the built inner expression on.\<close>

definition leftrightDelims ::
    "('n, 'o) ext \<Rightarrow> Mode \<Rightarrow> string \<Rightarrow> string \<Rightarrow> 'o \<Rightarrow> ('n, 'o) node list \<Rightarrow>
       ('n, 'o) node result" where
  "leftrightDelims X mode' left right options inner =
     (case innerExtent X inner (num0 X) (num0 X) False of
        (h, d, hadMiddle) \<Rightarrow>
          (let innerHeight = numMul X h (sizeMultiplier X options);
               innerDepth = numMul X d (sizeMultiplier X options)
           in case (if left = ''.'' then Ok (makeNullDelimiter X options [''mopen''])
                    else leftRightDelim X left innerHeight innerDepth options mode' [''mopen''])
              of
                Ok leftDelim \<Rightarrow>
                  (case (if hadMiddle then resizeMiddles X mode' innerHeight innerDepth inner
                         else Ok inner) of
                     Ok inner' \<Rightarrow>
                       (case (if right = ''.''
                              then Ok (makeNullDelimiter X options [''mclose''])
                              else leftRightDelim X right innerHeight innerDepth options mode'
                                     [''mclose'']) of
                          Ok rightDelim \<Rightarrow>
                            Ok (makeSpan X (Some [''minner''])
                                  (Some ((leftDelim # inner') @ [rightDelim])) (Some options)
                                  None)
                        | Throw e \<Rightarrow> Throw e
                        | NoReturn \<Rightarrow> NoReturn)
                   | Throw e \<Rightarrow> Throw e
                   | NoReturn \<Rightarrow> NoReturn)
              | Throw e \<Rightarrow> Throw e
              | NoReturn \<Rightarrow> NoReturn))"

text \<open>
  In words: the running maximum (\<^verbatim>\<open>Math.max\<close>, started at 0) of a dimension over the nodes
  that are not marked as middle delimiters.
\<close>

definition maxOver ::
    "('n, 'o) ext \<Rightarrow> (('n, 'o) domFields \<Rightarrow> 'n) \<Rightarrow> ('n, 'o) node list \<Rightarrow> 'n" where
  "maxOver X dim ns =
     foldl (\<lambda>acc n. numMax X (dim (fld n)) acc) (num0 X)
       (filter (\<lambda>n. isMiddle (fld n) = None) ns)"

definition middleBuilder :: "('n, 'o) ext \<Rightarrow> Mode \<Rightarrow> string \<Rightarrow> 'o \<Rightarrow> ('n, 'o) node result" where
  "middleBuilder X mode' delim options =
     (if delim = ''.'' then Ok (makeNullDelimiter X options [])
      else (case sizedDelim X delim 1 options mode' [] of
              Ok middleDelim \<Rightarrow>
                Ok (Node ((fld middleDelim)\<lparr>isMiddle := Some (delim, options)\<rparr>)
                      (children middleDelim))
            | Throw e \<Rightarrow> Throw e
            | NoReturn \<Rightarrow> NoReturn))"

definition delimsizingBuilder ::
    "('n, 'o) ext \<Rightarrow> Mode \<Rightarrow> nat \<Rightarrow> string \<Rightarrow> string \<Rightarrow> 'o \<Rightarrow> ('n, 'o) node result" where
  "delimsizingBuilder X mode' size' mclass delim options =
     (if delim = ''.'' then Ok (makeSpan X (Some [mclass]) None None None)
      else sizedDelim X delim size' options mode' [mclass])"

subsection \<open>buildGroup and buildExpression\<close>

text \<open>
  \<^verbatim>\<open>groupBuilders[group.type]\<close>. The registry is an object of \<^verbatim>\<open>defineFunction\<close>, which is
  not in the sources; the key is a \<^verbatim>\<open>NodeType\<close>, and none of these names a property that
  an object inherits, so the lookup finds what was registered under the type or nothing.
  The builders that the sources register are there (\<^verbatim>\<open>atom\<close>, \<^verbatim>\<open>mathord\<close>, \<^verbatim>\<open>textord\<close>,
  \<^verbatim>\<open>color\<close>, \<^verbatim>\<open>href\<close>, \<^verbatim>\<open>leftright\<close>, \<^verbatim>\<open>middle\<close>, \<^verbatim>\<open>delimsizing\<close>); for every other type
  the parameter \<open>otherBuilders\<close> says what the registry holds. The builder of \<^verbatim>\<open>xArrow\<close> is
  in the sources as well, but what it builds goes through \<^verbatim>\<open>stretchy\<close>, \<^verbatim>\<open>makeVList\<close> and
  the font metrics, which are not: it is taken with the registry.
\<close>

definition hasBuilder :: "('n, 'o) ext \<Rightarrow> pnode \<Rightarrow> bool" where
  "hasBuilder X g =
     (case g of
        Atom m f t \<Rightarrow> True | Mathord m t \<Rightarrow> True | Textord m t \<Rightarrow> True
      | Color m c b \<Rightarrow> True | Href m h b \<Rightarrow> True | Leftright m b l r \<Rightarrow> True
      | Middle m d \<Rightarrow> True | Delimsizing m s c d \<Rightarrow> True
      | _ \<Rightarrow> otherBuilders X (typeOf g) \<noteq> None)"

definition unknownType :: "pnode \<Rightarrow> error" where
  "unknownType g = ParseError (''Got group of unknown type: '' @ [CHR 0x27] @ typeOf g @ [CHR 0x27])"

definition registered :: "('n, 'o) ext \<Rightarrow> pnode \<Rightarrow> 'o \<Rightarrow> ('n, 'o) node result" where
  "registered X g options =
     (case otherBuilders X (typeOf g) of None \<Rightarrow> Throw (unknownType g) | Some b \<Rightarrow> b g options)"

text \<open>The size change between the parent and the group, at the end of \<^verbatim>\<open>buildGroup\<close>.\<close>

definition sizeChange ::
    "('n, 'o) ext \<Rightarrow> 'o \<Rightarrow> 'o option \<Rightarrow> ('n, 'o) node \<Rightarrow> ('n, 'o) node" where
  "sizeChange X options baseOptions groupNode =
     (case baseOptions of
        None \<Rightarrow> groupNode
      | Some base \<Rightarrow>
          if optSize X options \<noteq> optSize X base then
            (let g = makeSpan X (Some (sizingClasses X options base)) (Some [groupNode])
                       (Some options) None;
                 multiplier = numDiv X (sizeMultiplier X options) (sizeMultiplier X base)
             in Node ((fld g)\<lparr>height := numMul X (height (fld g)) multiplier,
                              depth := numMul X (depth (fld g)) multiplier\<rparr>) (children g))
          else groupNode)"

fun buildGroups :: "('n, 'o) ext \<Rightarrow> pnode list \<Rightarrow> 'o \<Rightarrow> ('n, 'o) node list result"
  and buildExpression ::
    "('n, 'o) ext \<Rightarrow> pnode list \<Rightarrow> 'o \<Rightarrow> bool \<Rightarrow> string option \<times> string option \<Rightarrow>
       ('n, 'o) node list result"
  and buildGroup :: "('n, 'o) ext \<Rightarrow> pnode option \<Rightarrow> 'o \<Rightarrow> 'o option \<Rightarrow> ('n, 'o) node result"
  and groupBuilder :: "('n, 'o) ext \<Rightarrow> pnode \<Rightarrow> 'o \<Rightarrow> ('n, 'o) node result"
where
  "buildGroups X [] options = Ok []"
| "buildGroups X (g # gs) options =
     (case buildGroup X (Some g) options None of
        Ok output \<Rightarrow>
          (case buildGroups X gs options of
             Ok groups \<Rightarrow>
               Ok ((if kind (fld output) = DocumentFragment then children output else [output])
                     @ groups)
           | Throw e \<Rightarrow> Throw e
           | NoReturn \<Rightarrow> NoReturn)
      | Throw e \<Rightarrow> Throw e
      | NoReturn \<Rightarrow> NoReturn)"
| "buildExpression X expression options isRealGroup surrounding =
     (case buildGroups X expression options of
        Ok groups \<Rightarrow>
          if \<not> isRealGroup then Ok groups
          else cancelAndSpace X expression options surrounding groups
      | Throw e \<Rightarrow> Throw e
      | NoReturn \<Rightarrow> NoReturn)"
| "buildGroup X None options baseOptions = Ok (makeSpan X None None None None)"
| "buildGroup X (Some group') options baseOptions =
     (if hasBuilder X group' then
        (case groupBuilder X group' options of
           Ok groupNode \<Rightarrow> Ok (sizeChange X options baseOptions groupNode)
         | Throw e \<Rightarrow> Throw e
         | NoReturn \<Rightarrow> NoReturn)
      else Throw (unknownType group'))"
| "groupBuilder X (Atom m family text') options =
     Ok (mathsym X text' m options [''m'' @ family])"
| "groupBuilder X (Mathord m text') options = makeOrd X (Mathord m text') options ''mathord''"
| "groupBuilder X (Textord m text') options = makeOrd X (Textord m text') options ''textord''"
| "groupBuilder X (Color m color' body) options =
     (case buildExpression X body (withColor X options color') False (None, None) of
        Ok elements \<Rightarrow> Ok (makeFragment X elements)
      | Throw e \<Rightarrow> Throw e
      | NoReturn \<Rightarrow> NoReturn)"
| "groupBuilder X (Href m href' body) options =
     (case buildExpression X body options False (None, None) of
        Ok elements \<Rightarrow> Ok (makeAnchor X href' [] elements options)
      | Throw e \<Rightarrow> Throw e
      | NoReturn \<Rightarrow> NoReturn)"
| "groupBuilder X (Leftright m None left right) options =
     Throw (Error ''Bug: The leftright ParseNode wasn't fully parsed.'')"
| "groupBuilder X (Leftright m (Some body) left right) options =
     (case buildExpression X body options True (Some ''mopen'', Some ''mclose'') of
        Ok inner \<Rightarrow> leftrightDelims X m left right options inner
      | Throw e \<Rightarrow> Throw e
      | NoReturn \<Rightarrow> NoReturn)"
| "groupBuilder X (Middle m delim) options = middleBuilder X m delim options"
| "groupBuilder X (Delimsizing m size' mclass delim) options =
     delimsizingBuilder X m size' mclass delim options"
| "groupBuilder X (Sizing m size' body) options = registered X (Sizing m size' body) options"
| "groupBuilder X (Styling m style' body) options = registered X (Styling m style' body) options"
| "groupBuilder X (Tag m body tag') options = registered X (Tag m body tag') options"
| "groupBuilder X (Spacing m text') options = registered X (Spacing m text') options"
| "groupBuilder X (AccentToken m text') options = registered X (AccentToken m text') options"
| "groupBuilder X (OpToken m text') options = registered X (OpToken m text') options"
| "groupBuilder X (ColorToken m color') options = registered X (ColorToken m color') options"
| "groupBuilder X (Url m url') options = registered X (Url m url') options"
| "groupBuilder X (TextGroup m body font) options = registered X (TextGroup m body font) options"
| "groupBuilder X (LeftrightRight m delim) options = registered X (LeftrightRight m delim) options"
| "groupBuilder X (Other t m) options = registered X (Other t m) options"

text \<open>
  \<^verbatim>\<open>buildHTML\<close>. The tag child is the last element of the children of the root, and the
  same object: the two writes to its strut at the end are made in the root.
\<close>

definition buildHTML :: "('n, 'o) ext \<Rightarrow> pnode list \<Rightarrow> 'o \<Rightarrow> ('n, 'o) node result" where
  "buildHTML X tree options =
     (case (case tree of [Tag m body tag'] \<Rightarrow> (Some tag', body) | _ \<Rightarrow> (None, tree)) of
        (tag', tree') \<Rightarrow>
          (case buildExpression X tree' options True (None, None) of
             Ok expression \<Rightarrow>
               (let children' = chunks X options expression [] [] in
                case tag' of
                  None \<Rightarrow>
                    Ok (setAttribute ''aria-hidden'' ''true''
                          (makeSpan X (Some [''katex-html'']) (Some children') None None))
                | Some tg \<Rightarrow>
                    (case buildExpression X tg options True (None, None) of
                       Ok tagExpression \<Rightarrow>
                         (let tagChild = setClasses [''tag'']
                                           (buildHTMLUnbreakable X tagExpression options);
                              htmlNode = setAttribute ''aria-hidden'' ''true''
                                           (makeSpan X (Some [''katex-html''])
                                              (Some (children' @ [tagChild])) None None)
                          in case children tagChild of
                               [] \<Rightarrow> Throw (TypeError ''Cannot read property 'style' of undefined'')
                             | strut # rest \<Rightarrow>
                                 (let strut = setStyle ''height''
                                                (numStr X (numAdd X (height (fld htmlNode))
                                                             (depth (fld htmlNode))) @ ''em'')
                                                strut;
                                      strut = setStyle ''verticalAlign''
                                                (numStr X (numNeg X (depth (fld htmlNode))) @ ''em'')
                                                strut
                                  in Ok (setChildren
                                           (butlast (children htmlNode)
                                              @ [setChildren (strut # rest) tagChild])
                                           htmlNode)))
                     | Throw e \<Rightarrow> Throw e
                     | NoReturn \<Rightarrow> NoReturn))
           | Throw e \<Rightarrow> Throw e
           | NoReturn \<Rightarrow> NoReturn))"

section \<open>parseTree and the handlers\<close>

text \<open>
  The parser is not in the sources: \<^verbatim>\<open>parseTree\<close> and the handlers take what they call of
  it. \<open>'p\<close> is the state of a parser, \<open>'s\<close> the settings. Of the parser a handler reads
  \<^verbatim>\<open>mode\<close>, reads and writes the counter \<^verbatim>\<open>leftrightDepth\<close>, and calls \<^verbatim>\<open>parseExpression\<close>,
  \<^verbatim>\<open>expect\<close> and \<^verbatim>\<open>parseFunction\<close> (which returns a node or \<^verbatim>\<open>null\<close>). \<^verbatim>\<open>ordargument\<close> (of
  \<^verbatim>\<open>defineFunction\<close>) and \<^verbatim>\<open>JSON.stringify\<close> are parameters with them. The argument
  \<^verbatim>\<open>toParse\<close> of \<^verbatim>\<open>parseTree\<close> is any JavaScript value: a string or not.
\<close>

record ('p, 's) parserExt =
  newParser :: "string \<Rightarrow> 's \<Rightarrow> 'p"
  deleteMacro :: "'p \<Rightarrow> string \<Rightarrow> 'p"
  parse :: "'p \<Rightarrow> (pnode list \<times> 'p) result"
  macroGet :: "'p \<Rightarrow> string \<Rightarrow> bool"
  feed :: "'p \<Rightarrow> string \<Rightarrow> 'p"
  displayMode :: "'s \<Rightarrow> bool"
  mode :: "'p \<Rightarrow> Mode"
  leftrightDepth :: "'p \<Rightarrow> int"
  setLeftrightDepth :: "'p \<Rightarrow> int \<Rightarrow> 'p"
  parseExpression :: "'p \<Rightarrow> bool \<Rightarrow> string option \<Rightarrow> (pnode list \<times> 'p) result"
  expect :: "'p \<Rightarrow> string \<Rightarrow> bool \<Rightarrow> 'p result"
  parseFunction :: "'p \<Rightarrow> (pnode option \<times> 'p) result"
  ordargument :: "pnode \<Rightarrow> pnode list"
  stringify :: "pnode \<Rightarrow> string"

datatype jsvalue = JString string | JNotAString

definition dfTag :: string where
  "dfTag = [CHR 0x5C] @ ''df@tag''"

definition parseTree ::
    "('p, 's) parserExt \<Rightarrow> jsvalue \<Rightarrow> 's \<Rightarrow> pnode list result" where
  "parseTree P toParse settings =
     (case toParse of
        JNotAString \<Rightarrow> Throw (TypeError ''KaTeX can only parse string typed expression'')
      | JString s \<Rightarrow>
          (let parser = deleteMacro P (newParser P s settings) dfTag in
           case parse P parser of
             Ok (tree, parser) \<Rightarrow>
               if macroGet P parser dfTag then
                 if \<not> displayMode P settings
                 then Throw (ParseError ([CHR 0x5C] @ ''tag works only in display equations''))
                 else (case parse P (feed P parser dfTag) of
                         Ok (tag', parser) \<Rightarrow> Ok [Tag Text tree tag']
                       | Throw e \<Rightarrow> Throw e
                       | NoReturn \<Rightarrow> NoReturn)
               else Ok tree
           | Throw e \<Rightarrow> Throw e
           | NoReturn \<Rightarrow> NoReturn))"

subsection \<open>The handlers of delimsizing.ts\<close>

text \<open>
  The name of a control sequence: a backslash and its letters. A string is the list of its
  bytes; the ten delimiters that the source writes by code point are their UTF-8 bytes.
\<close>

definition ctl :: "string \<Rightarrow> string" where
  "ctl name = CHR 0x5C # name"

definition delimiters :: "string list" where
  "delimiters =
     [''('', ctl ''lparen'', '')'', ctl ''rparen'',
      ''['', ctl ''lbrack'', '']'', ctl ''rbrack'',
      ctl ''{'', ctl ''lbrace'', ctl ''}'', ctl ''rbrace'',
      ctl ''lfloor'', ctl ''rfloor'', [CHR 0xE2, CHR 0x8C, CHR 0x8A], [CHR 0xE2, CHR 0x8C, CHR 0x8B],
      ctl ''lceil'', ctl ''rceil'', [CHR 0xE2, CHR 0x8C, CHR 0x88], [CHR 0xE2, CHR 0x8C, CHR 0x89],
      ''<'', ''>'', ctl ''langle'', [CHR 0xE2, CHR 0x9F, CHR 0xA8],
      ctl ''rangle'', [CHR 0xE2, CHR 0x9F, CHR 0xA9], ctl ''lt'', ctl ''gt'',
      ctl ''lvert'', ctl ''rvert'', ctl ''lVert'', ctl ''rVert'',
      ctl ''lgroup'', ctl ''rgroup'', [CHR 0xE2, CHR 0x9F, CHR 0xAE], [CHR 0xE2, CHR 0x9F, CHR 0xAF],
      ctl ''lmoustache'', ctl ''rmoustache'', [CHR 0xE2, CHR 0x8E, CHR 0xB0],
      [CHR 0xE2, CHR 0x8E, CHR 0xB1],
      ''/'', ctl ''backslash'',
      ''|'', ctl ''vert'', ctl ''|'', ctl ''Vert'',
      ctl ''uparrow'', ctl ''Uparrow'',
      ctl ''downarrow'', ctl ''Downarrow'',
      ctl ''updownarrow'', ctl ''Updownarrow'',
      ''.'']"

text \<open>
  \<^verbatim>\<open>checkDelimiter(delim, context)\<close>; of the context it reads \<^verbatim>\<open>funcName\<close>. The position that
  the \<^verbatim>\<open>ParseError\<close> carries is left out.
\<close>

definition checkDelimiter :: "('p, 's) parserExt \<Rightarrow> pnode \<Rightarrow> string \<Rightarrow> pnode result" where
  "checkDelimiter P delim funcName =
     (case checkSymbolNodeType (Some delim) of
        Some symDelim \<Rightarrow>
          if textOf symDelim \<in> set delimiters then Ok symDelim
          else Throw (ParseError (''Invalid delimiter: '' @ [CHR 0x27] @ textOf symDelim
                                  @ [CHR 0x27] @ '' after '' @ [CHR 0x27] @ funcName
                                  @ [CHR 0x27]))
      | None \<Rightarrow>
          Throw (ParseError (''Invalid delimiter: '' @ [CHR 0x27] @ stringify P delim
                             @ [CHR 0x27] @ '' after '' @ [CHR 0x27] @ funcName @ [CHR 0x27])))"

text \<open>
  The handler of \<^verbatim>\<open>delimsizing\<close> is registered under the sixteen names that are the keys of
  \<^verbatim>\<open>delimiterSizes\<close>, and is called with the name it was found by.
\<close>

datatype sizeFunction =
    F_bigl | F_Bigl | F_biggl | F_Biggl
  | F_bigr | F_Bigr | F_biggr | F_Biggr
  | F_bigm | F_Bigm | F_biggm | F_Biggm
  | F_big | F_Big | F_bigg | F_Bigg

fun sizeFunctionName :: "sizeFunction \<Rightarrow> string" where
  "sizeFunctionName F_bigl = ctl ''bigl''"
| "sizeFunctionName F_Bigl = ctl ''Bigl''"
| "sizeFunctionName F_biggl = ctl ''biggl''"
| "sizeFunctionName F_Biggl = ctl ''Biggl''"
| "sizeFunctionName F_bigr = ctl ''bigr''"
| "sizeFunctionName F_Bigr = ctl ''Bigr''"
| "sizeFunctionName F_biggr = ctl ''biggr''"
| "sizeFunctionName F_Biggr = ctl ''Biggr''"
| "sizeFunctionName F_bigm = ctl ''bigm''"
| "sizeFunctionName F_Bigm = ctl ''Bigm''"
| "sizeFunctionName F_biggm = ctl ''biggm''"
| "sizeFunctionName F_Biggm = ctl ''Biggm''"
| "sizeFunctionName F_big = ctl ''big''"
| "sizeFunctionName F_Big = ctl ''Big''"
| "sizeFunctionName F_bigg = ctl ''bigg''"
| "sizeFunctionName F_Bigg = ctl ''Bigg''"

text \<open>\<^verbatim>\<open>delimiterSizes[funcName]\<close>: the class and the size.\<close>

fun delimiterSizes :: "sizeFunction \<Rightarrow> string \<times> nat" where
  "delimiterSizes F_bigl = (''mopen'', 1)"
| "delimiterSizes F_Bigl = (''mopen'', 2)"
| "delimiterSizes F_biggl = (''mopen'', 3)"
| "delimiterSizes F_Biggl = (''mopen'', 4)"
| "delimiterSizes F_bigr = (''mclose'', 1)"
| "delimiterSizes F_Bigr = (''mclose'', 2)"
| "delimiterSizes F_biggr = (''mclose'', 3)"
| "delimiterSizes F_Biggr = (''mclose'', 4)"
| "delimiterSizes F_bigm = (''mrel'', 1)"
| "delimiterSizes F_Bigm = (''mrel'', 2)"
| "delimiterSizes F_biggm = (''mrel'', 3)"
| "delimiterSizes F_Biggm = (''mrel'', 4)"
| "delimiterSizes F_big = (''mord'', 1)"
| "delimiterSizes F_Big = (''mord'', 2)"
| "delimiterSizes F_bigg = (''mord'', 3)"
| "delimiterSizes F_Bigg = (''mord'', 4)"

text \<open>
  A handler takes the context (the parser, \<^verbatim>\<open>funcName\<close>, \<^verbatim>\<open>breakOnTokenText\<close>) and the
  arguments, as many as its \<^verbatim>\<open>numArgs\<close>. A handler that calls the parser returns the node
  together with the state of the parser.
\<close>

definition delimsizingHandler ::
    "('p, 's) parserExt \<Rightarrow> 'p \<Rightarrow> sizeFunction \<Rightarrow> pnode \<Rightarrow> pnode result" where
  "delimsizingHandler P parser funcName arg0 =
     (case checkDelimiter P arg0 (sizeFunctionName funcName) of
        Ok delim \<Rightarrow>
          Ok (Delimsizing (mode P parser) (snd (delimiterSizes funcName))
                (fst (delimiterSizes funcName)) (textOf delim))
      | Throw e \<Rightarrow> Throw e
      | NoReturn \<Rightarrow> NoReturn)"

definition rightHandler ::
    "('p, 's) parserExt \<Rightarrow> 'p \<Rightarrow> string \<Rightarrow> pnode \<Rightarrow> pnode result" where
  "rightHandler P parser funcName arg0 =
     (case checkDelimiter P arg0 funcName of
        Ok delim \<Rightarrow> Ok (LeftrightRight (mode P parser) (textOf delim))
      | Throw e \<Rightarrow> Throw e
      | NoReturn \<Rightarrow> NoReturn)"

definition leftHandler ::
    "('p, 's) parserExt \<Rightarrow> 'p \<Rightarrow> string \<Rightarrow> pnode \<Rightarrow> (pnode \<times> 'p) result" where
  "leftHandler P parser funcName arg0 =
     (case checkDelimiter P arg0 funcName of
        Ok delim \<Rightarrow>
          (let parser = setLeftrightDepth P parser (leftrightDepth P parser + 1) in
           case parseExpression P parser False None of
             Ok (body, parser) \<Rightarrow>
               (let parser = setLeftrightDepth P parser (leftrightDepth P parser - 1) in
                case expect P parser (ctl ''right'') False of
                  Ok parser \<Rightarrow>
                    (case parseFunction P parser of
                       Ok (f, parser) \<Rightarrow>
                         (case assertNodeType f ''leftright-right'' of
                            Ok right \<Rightarrow>
                              Ok (Leftright (mode P parser) (Some body) (textOf delim)
                                    (delimOf right), parser)
                          | Throw e \<Rightarrow> Throw e
                          | NoReturn \<Rightarrow> NoReturn)
                     | Throw e \<Rightarrow> Throw e
                     | NoReturn \<Rightarrow> NoReturn)
                | Throw e \<Rightarrow> Throw e
                | NoReturn \<Rightarrow> NoReturn)
           | Throw e \<Rightarrow> Throw e
           | NoReturn \<Rightarrow> NoReturn)
      | Throw e \<Rightarrow> Throw e
      | NoReturn \<Rightarrow> NoReturn)"

text \<open>\<^verbatim>\<open>!context.parser.leftrightDepth\<close>: the counter is zero.\<close>

definition middleHandler ::
    "('p, 's) parserExt \<Rightarrow> 'p \<Rightarrow> string \<Rightarrow> pnode \<Rightarrow> pnode result" where
  "middleHandler P parser funcName arg0 =
     (case checkDelimiter P arg0 funcName of
        Ok delim \<Rightarrow>
          if leftrightDepth P parser = 0
          then Throw (ParseError (ctl ''middle without preceding '' @ ctl ''left''))
          else Ok (Middle (mode P parser) (textOf delim))
      | Throw e \<Rightarrow> Throw e
      | NoReturn \<Rightarrow> NoReturn)"

subsection \<open>The handlers of color and href\<close>

text \<open>\<^verbatim>\<open>\textcolor\<close>: two arguments.\<close>

definition textcolorHandler ::
    "('p, 's) parserExt \<Rightarrow> 'p \<Rightarrow> pnode \<Rightarrow> pnode \<Rightarrow> pnode result" where
  "textcolorHandler P parser arg0 arg1 =
     (case assertNodeType (Some arg0) ''color-token'' of
        Ok token \<Rightarrow> Ok (Color (mode P parser) (colorOf token) (ordargument P arg1))
      | Throw e \<Rightarrow> Throw e
      | NoReturn \<Rightarrow> NoReturn)"

text \<open>The named colours (\<^verbatim>\<open>\blue\<close>, ...): \<^verbatim>\<open>"katex-" + funcName.slice(1)\<close>.\<close>

definition namedColorHandler ::
    "('p, 's) parserExt \<Rightarrow> 'p \<Rightarrow> string \<Rightarrow> pnode \<Rightarrow> pnode" where
  "namedColorHandler P parser funcName arg0 =
     Color (mode P parser) (''katex-'' @ drop 1 funcName) (ordargument P arg0)"

text \<open>\<^verbatim>\<open>\color\<close>: one argument, and the rest of the expression as the body.\<close>

definition colorHandler ::
    "('p, 's) parserExt \<Rightarrow> 'p \<Rightarrow> string option \<Rightarrow> pnode \<Rightarrow> (pnode \<times> 'p) result" where
  "colorHandler P parser breakOnTokenText arg0 =
     (case assertNodeType (Some arg0) ''color-token'' of
        Ok token \<Rightarrow>
          (case parseExpression P parser True breakOnTokenText of
             Ok (body, parser) \<Rightarrow> Ok (Color (mode P parser) (colorOf token) body, parser)
           | Throw e \<Rightarrow> Throw e
           | NoReturn \<Rightarrow> NoReturn)
      | Throw e \<Rightarrow> Throw e
      | NoReturn \<Rightarrow> NoReturn)"

text \<open>\<^verbatim>\<open>\href\<close>: the URL and the body.\<close>

definition hrefHandler ::
    "('p, 's) parserExt \<Rightarrow> 'p \<Rightarrow> pnode \<Rightarrow> pnode \<Rightarrow> pnode result" where
  "hrefHandler P parser arg0 arg1 =
     (case assertNodeType (Some arg0) ''url'' of
        Ok u \<Rightarrow> Ok (Href (mode P parser) (urlOf u) (ordargument P arg1))
      | Throw e \<Rightarrow> Throw e
      | NoReturn \<Rightarrow> NoReturn)"

text \<open>
  \<^verbatim>\<open>\url\<close>: the body is the URL itself in \<^verbatim>\<open>\texttt\<close>, one text symbol for each of its
  characters, a tilde written \<^verbatim>\<open>\textasciitilde\<close>.
\<close>

definition urlHandler :: "('p, 's) parserExt \<Rightarrow> 'p \<Rightarrow> pnode \<Rightarrow> pnode result" where
  "urlHandler P parser arg0 =
     (case assertNodeType (Some arg0) ''url'' of
        Ok u \<Rightarrow>
          (let href = urlOf u;
               chars = map (\<lambda>c. Textord Text (if c = CHR ''~'' then ctl ''textasciitilde'' else [c]))
                         href;
               body = TextGroup (mode P parser) chars (Some (ctl ''texttt''))
           in Ok (Href (mode P parser) href (ordargument P body)))
      | Throw e \<Rightarrow> Throw e
      | NoReturn \<Rightarrow> NoReturn)"

text \<open>
  What the claims about errors assume of the collaborators of the builders: that those
  which can throw throw a \<^verbatim>\<open>ParseError\<close>; a builder of the registry, which may call
  \<^verbatim>\<open>buildGroup\<close> in its turn (as the builder of \<^verbatim>\<open>xArrow\<close> does), may also pass on the error
  of \<^verbatim>\<open>assertParsed\<close>, here \<open>assertParsedError\<close>. \<open>isPlainError\<close> says that an error is a plain \<^verbatim>\<open>Error\<close>.
\<close>

definition assertParsedError :: error where
  "assertParsedError = Error ''Bug: The leftright ParseNode wasn't fully parsed.''"

definition throwsOnlyParseErrors :: "('n, 'o) ext \<Rightarrow> bool" where
  "throwsOnlyParseErrors X =
     ((\<forall>g opts ty e. makeOrd X g opts ty = Throw e \<longrightarrow> isParseError e)
      \<and> (\<forall>delim h d opts m cs e. leftRightDelim X delim h d opts m cs = Throw e \<longrightarrow> isParseError e)
      \<and> (\<forall>delim s opts m cs e. sizedDelim X delim s opts m cs = Throw e \<longrightarrow> isParseError e)
      \<and> (\<forall>t b g opts e. otherBuilders X t = Some b \<longrightarrow> b g opts = Throw e \<longrightarrow>
             isParseError e \<or> e = assertParsedError))"

definition isPlainError :: "error \<Rightarrow> bool" where
  "isPlainError e = (case e of Error _ \<Rightarrow> True | _ \<Rightarrow> False)"

section \<open>Markup (domTree)\<close>

fun join :: "string \<Rightarrow> string list \<Rightarrow> string" where
  "join sep [] = []"
| "join sep [x] = x"
| "join sep (x # y # ys) = x @ sep @ join sep (y # ys)"

definition createClass :: "string list \<Rightarrow> string" where
  "createClass classes' = join '' '' (filter (\<lambda>cls. cls \<noteq> []) classes')"

text \<open>
  The styles, after hyphenation. \<^verbatim>\<open>utils.escape\<close> and \<^verbatim>\<open>utils.hyphenate\<close> are not in the
  sources: they are parameters.
\<close>

definition stylesOf :: "(string \<Rightarrow> string) \<Rightarrow> (string \<times> string) list \<Rightarrow> string" where
  "stylesOf hyphenate st = concat (map (\<lambda>(k, v). hyphenate k @ '':'' @ v @ '';'') st)"

text \<open>The shared \<^verbatim>\<open>toMarkup\<close> of \<^verbatim>\<open>Span\<close> and \<^verbatim>\<open>Anchor\<close>, given the markup of the children.\<close>

definition toMarkup ::
    "(string \<Rightarrow> string) \<Rightarrow> (string \<Rightarrow> string) \<Rightarrow> string \<Rightarrow> ('n, 'o) domFields \<Rightarrow> string list \<Rightarrow>
       string" where
  \<open>toMarkup escape hyphenate tagName this childMarkup =
     (let markup = ''<'' @ tagName;
          markup = (if length (classes this) \<noteq> 0
                    then markup @ '' class="'' @ escape (createClass (classes this)) @ ''"''
                    else markup);
          styles = stylesOf hyphenate (style this);
          markup = (if styles \<noteq> [] then markup @ '' style="'' @ escape styles @ ''"''
                    else markup);
          markup = foldl (\<lambda>m (attr, v). m @ '' '' @ attr @ ''="'' @ escape v @ ''"'') markup
                     (attributes this);
          markup = markup @ ''>'';
          markup = markup @ concat childMarkup
      in markup @ ''</'' @ tagName @ ''>'')\<close>

text \<open>\<^verbatim>\<open>Img.toMarkup\<close>.\<close>

definition Img_toMarkup ::
    "(string \<Rightarrow> string) \<Rightarrow> (string \<Rightarrow> string) \<Rightarrow> string \<Rightarrow> string \<Rightarrow> (string \<times> string) list \<Rightarrow>
       string" where
  \<open>Img_toMarkup escape hyphenate src alt style' =
     (let markup = ''<img  src='' @ [CHR 0x27] @ src @ '' '' @ [CHR 0x27] @ ''alt=''
                     @ [CHR 0x27] @ alt @ [CHR 0x27] @ '' '';
          styles = stylesOf hyphenate style';
          markup = (if styles \<noteq> [] then markup @ '' style="'' @ escape styles @ ''"''
                    else markup)
      in markup @ [CHR 0x27] @ ''/>'')\<close>

section \<open>The semantic builder of href\<close>

text \<open>
  The MathML nodes are objects too, and this builder depends on which object it returns:
  they live in a store, addressed by numbers. \<^verbatim>\<open>mathMLTree\<close> and \<^verbatim>\<open>buildMathML\<close> are not
  in the sources: a node is a \<^verbatim>\<open>MathNode\<close> (type, children, attributes) or some other node
  (a text node), and \<^verbatim>\<open>buildExpressionRow\<close> is a parameter.
\<close>

datatype mnode = MathNode string "nat list" "(string \<times> string) list" | TextNode string

record mstore =
  mobjs :: "nat \<Rightarrow> mnode option"
  mnext :: nat

definition mathSetAttribute :: "nat \<Rightarrow> string \<Rightarrow> string \<Rightarrow> mstore \<Rightarrow> mstore" where
  "mathSetAttribute a k v st =
     (case mobjs st a of
        Some (MathNode t c attrs) \<Rightarrow> st\<lparr>mobjs := (mobjs st)(a \<mapsto> MathNode t c (setProp k v attrs))\<rparr>
      | _ \<Rightarrow> st)"

definition mathGetAttribute :: "mstore \<Rightarrow> nat \<Rightarrow> string \<Rightarrow> string option" where
  "mathGetAttribute st a k =
     (case mobjs st a of Some (MathNode t c attrs) \<Rightarrow> map_of attrs k | _ \<Rightarrow> None)"

definition href_mathmlBuilder ::
    "(pnode list \<Rightarrow> 'o \<Rightarrow> mstore \<Rightarrow> nat \<times> mstore) \<Rightarrow> Mode \<Rightarrow> string \<Rightarrow> pnode list \<Rightarrow> 'o \<Rightarrow>
       mstore \<Rightarrow> nat \<times> mstore" where
  "href_mathmlBuilder buildExpressionRow m href' body options st =
     (case buildExpressionRow body options st of
        (math, st) \<Rightarrow>
          (case (case mobjs st math of
                   Some (MathNode t c a) \<Rightarrow> (math, st)
                 | _ \<Rightarrow> (mnext st,
                         st\<lparr>mobjs := (mobjs st)(mnext st \<mapsto> MathNode ''mrow'' [math] []),
                            mnext := mnext st + 1\<rparr>)) of
             (mnode', st) \<Rightarrow> (math, mathSetAttribute mnode' ''href'' href' st)))"

section \<open>Concrete collaborators for the examples\<close>

text \<open>
  To run the model on an example the parameters need values. Numbers are integers here,
  an \<^verbatim>\<open>Options\<close> value is its colour (the empty string: none), every symbol is a box of
  height 7 and depth 2, a delimiter is a symbol of the extent asked for, and the spacing
  tables are those of TeX in mu: thin 3, medium 4, thick 5.
\<close>

fun showNat :: "nat \<Rightarrow> string" where
  "showNat n =
     (if n < 10 then [char_of (48 + n)] else showNat (n div 10) @ [char_of (48 + n mod 10)])"

definition showInt :: "int \<Rightarrow> string" where
  "showInt i = (if i < 0 then ''-'' @ showNat (nat (- i)) else showNat (nat i))"

definition exSymbol :: "string \<Rightarrow> string list \<Rightarrow> string \<Rightarrow> int \<Rightarrow> int \<Rightarrow> (int, string) node" where
  "exSymbol text' classes' color' h d =
     Node \<lparr>kind = SymbolNode text', classes = classes', attributes = [], height = h,
           depth = d, maxFontSize = 0,
           style = (if color' = [] then [] else [(''color'', color')]), isMiddle = None\<rparr> []"

definition exSpacings :: "string \<Rightarrow> string \<Rightarrow> int measurement option" where
  "exSpacings a b =
     map_of
       [((''mord'', ''mop''), (3, ''mu'')), ((''mord'', ''mbin''), (4, ''mu'')),
        ((''mord'', ''mrel''), (5, ''mu'')), ((''mord'', ''minner''), (3, ''mu'')),
        ((''mop'', ''mord''), (3, ''mu'')), ((''mop'', ''mop''), (3, ''mu'')),
        ((''mop'', ''mrel''), (5, ''mu'')), ((''mop'', ''minner''), (3, ''mu'')),
        ((''mbin'', ''mord''), (4, ''mu'')), ((''mbin'', ''mop''), (4, ''mu'')),
        ((''mbin'', ''mopen''), (4, ''mu'')), ((''mbin'', ''minner''), (4, ''mu'')),
        ((''mrel'', ''mord''), (5, ''mu'')), ((''mrel'', ''mop''), (5, ''mu'')),
        ((''mrel'', ''mopen''), (5, ''mu'')), ((''mrel'', ''minner''), (5, ''mu'')),
        ((''mclose'', ''mop''), (3, ''mu'')), ((''mclose'', ''mbin''), (4, ''mu'')),
        ((''mclose'', ''mrel''), (5, ''mu'')), ((''mclose'', ''minner''), (3, ''mu'')),
        ((''mpunct'', ''mord''), (3, ''mu'')), ((''mpunct'', ''mop''), (3, ''mu'')),
        ((''mpunct'', ''mrel''), (5, ''mu'')), ((''mpunct'', ''mopen''), (3, ''mu'')),
        ((''mpunct'', ''mclose''), (3, ''mu'')), ((''mpunct'', ''mpunct''), (3, ''mu'')),
        ((''mpunct'', ''minner''), (3, ''mu'')),
        ((''minner'', ''mord''), (3, ''mu'')), ((''minner'', ''mop''), (3, ''mu'')),
        ((''minner'', ''mbin''), (4, ''mu'')), ((''minner'', ''mrel''), (5, ''mu'')),
        ((''minner'', ''mopen''), (3, ''mu'')), ((''minner'', ''mpunct''), (3, ''mu'')),
        ((''minner'', ''minner''), (3, ''mu''))]
       (a, b)"

definition exTightSpacings :: "string \<Rightarrow> string \<Rightarrow> int measurement option" where
  "exTightSpacings a b =
     map_of
       [((''mord'', ''mop''), (3, ''mu'')), ((''mop'', ''mord''), (3, ''mu'')),
        ((''mop'', ''mop''), (3, ''mu'')), ((''mclose'', ''mop''), (3, ''mu'')),
        ((''minner'', ''mop''), (3, ''mu''))]
       (a, b)"

definition exText :: "pnode \<Rightarrow> string" where
  "exText g = (case g of Mathord m t \<Rightarrow> t | Textord m t \<Rightarrow> t | _ \<Rightarrow> [])"

definition exampleExt :: "(int, string) ext" where
  "exampleExt =
     \<lparr>num0 = 0, numAdd = (+), numNeg = uminus, numMul = (*), numDiv = (div), numMax = max,
      numStr = showInt,
      isTight = (\<lambda>opts. False),
      getColor = (\<lambda>opts. if opts = [] then None else Some opts),
      withColor = (\<lambda>opts c. c),
      havingSize = (\<lambda>opts s. opts),
      havingStyle = (\<lambda>opts s. opts),
      optSize = (\<lambda>opts. 6),
      sizeMultiplier = (\<lambda>opts. 1),
      sizingClasses = (\<lambda>opts base. []),
      baseSizingClasses = (\<lambda>opts. []),
      sizeElementFromChildren =
        (\<lambda>cs. (foldl max 0 (map (\<lambda>c. height (fld c)) cs),
               foldl max 0 (map (\<lambda>c. depth (fld c)) cs),
               foldl max 0 (map (\<lambda>c. maxFontSize (fld c)) cs))),
      makeGlue =
        (\<lambda>sp opts. Node \<lparr>kind = Span, classes = [''mspace''], attributes = [], height = 0,
                          depth = 0, maxFontSize = 0,
                          style = [(''marginRight'', showInt (fst sp) @ snd sp)],
                          isMiddle = None\<rparr> []),
      mathsym = (\<lambda>t m opts cs. exSymbol t cs opts 7 2),
      makeOrd = (\<lambda>g opts ty. Ok (exSymbol (exText g) [''mord''] opts 7 2)),
      leftRightDelim = (\<lambda>delim h d opts m cs. Ok (exSymbol delim cs opts h d)),
      sizedDelim = (\<lambda>delim s opts m cs. Ok (exSymbol delim cs opts (int s) (int s))),
      spacings = exSpacings,
      tightSpacings = exTightSpacings,
      otherBuilders = (\<lambda>t. None)\<rparr>"

text \<open>
  A parser that knows one input: the empty string, which it parses to the empty tree. Its
  mode is math, its counter is always zero, its expressions are empty, it expects
  anything, and it finds no function.
\<close>

definition exampleParser :: "(string, bool) parserExt" where
  "exampleParser =
     \<lparr>newParser = (\<lambda>s settings. s),
      deleteMacro = (\<lambda>p name. p),
      parse = (\<lambda>p. if p = [] then Ok ([], p) else Throw (ParseError ''Unexpected character'')),
      macroGet = (\<lambda>p name. False),
      feed = (\<lambda>p name. p),
      displayMode = (\<lambda>settings. settings),
      mode = (\<lambda>p. Math),
      leftrightDepth = (\<lambda>p. 0),
      setLeftrightDepth = (\<lambda>p n. p),
      parseExpression = (\<lambda>p breakOnInfix breakOnTokenText. Ok ([], p)),
      expect = (\<lambda>p text' consume. Ok p),
      parseFunction = (\<lambda>p. Ok (None, p)),
      ordargument = (\<lambda>arg. [arg]),
      stringify = (\<lambda>value'. ''{}'')\<rparr>"

text \<open>A \<^verbatim>\<open>buildExpressionRow\<close> for a body that builds to one text node.\<close>

definition exampleTextRow :: "pnode list \<Rightarrow> unit \<Rightarrow> mstore \<Rightarrow> nat \<times> mstore" where
  "exampleTextRow body options st =
     (mnext st, st\<lparr>mobjs := (mobjs st)(mnext st \<mapsto> TextNode ''y''), mnext := mnext st + 1\<rparr>)"

section \<open>Notions for the proofs about the traversal\<close>

subsection \<open>The store by identity\<close>

text \<open>
  All identities of a forest of objects, the identities of the nodes the loop visits (neither
  partial groups nor spaces) in the order of the traversal, and the two insertions of the
  loop named by identity instead of by array and index: after the object \<open>p\<close>, and at the
  front of the array that holds the object \<open>x\<close>.
\<close>

fun labelsOf :: "('n, 'o) obj list \<Rightarrow> nat list" where
  "labelsOf [] = []"
| "labelsOf (Obj l n ks # xs) = l # labelsOf ks @ labelsOf xs"

abbreviation setVal :: "nat \<Rightarrow> ('n, 'o) node \<Rightarrow> ('n, 'o) obj list \<Rightarrow> ('n, 'o) obj list" where
  "setVal l n \<equiv> modObj l (\<lambda>x. Obj (oid x) n (okids x))"

fun atomsL :: "('n, 'o) obj list \<Rightarrow> nat list" where
  "atomsL [] = []"
| "atomsL (Obj l n ks # xs) =
     (if checkPartialGroup n then atomsL ks @ atomsL xs
      else if class0 n = Some ''mspace'' then atomsL xs
      else l # atomsL xs)"

fun insAfter :: "nat \<Rightarrow> ('n, 'o) obj \<Rightarrow> ('n, 'o) obj list \<Rightarrow> ('n, 'o) obj list" where
  "insAfter p g [] = []"
| "insAfter p g (Obj l n ks # xs) =
     (if l = p then Obj l n ks # g # xs else Obj l n (insAfter p g ks) # insAfter p g xs)"

fun insIn :: "nat \<Rightarrow> ('n, 'o) obj \<Rightarrow> ('n, 'o) obj list \<Rightarrow> ('n, 'o) obj list" where
  "insIn x g [] = []"
| "insIn x g (Obj l n ks # xs) =
     Obj l n (if x \<in> oid ` set ks then g # ks else insIn x g ks) # insIn x g xs"

definition insFront :: "nat \<Rightarrow> ('n, 'o) obj \<Rightarrow> ('n, 'o) obj list \<Rightarrow> ('n, 'o) obj list" where
  "insFront x g R = (if x \<in> oid ` set R then g # R else insIn x g R)"

text \<open>The array an array reference names, the identity of its owner, and an update of it.\<close>

definition arrOf :: "('n, 'o) obj list \<Rightarrow> aref \<Rightarrow> ('n, 'o) obj list option" where
  "arrOf R a = (case a of TopArray \<Rightarrow> Some R | ChildrenOf l \<Rightarrow> map_option okids (findObj l R))"

definition alab :: "aref \<Rightarrow> nat set" where
  "alab a = (case a of TopArray \<Rightarrow> {} | ChildrenOf l \<Rightarrow> {l})"

definition updArr ::
  "aref \<Rightarrow> (('n, 'o) obj list \<Rightarrow> ('n, 'o) obj list) \<Rightarrow> ('n, 'o) obj list \<Rightarrow> ('n, 'o) obj list" where
  "updArr a F R =
     (case a of TopArray \<Rightarrow> F R
      | ChildrenOf l \<Rightarrow> modObj l (\<lambda>x. Obj (oid x) (onode x) (F (okids x))) R)"

text \<open>
  One turn of the loop on the object \<open>x\<close>, without loop counters and closures: the state is
  the store, \<^verbatim>\<open>dummyPrev\<close>, the reference \<^verbatim>\<open>prev.node\<close> and the next identity.
\<close>

definition avisit ::
  "('n, 'o) callback \<Rightarrow> ('n, 'o) obj list \<times> ('n, 'o) node \<times> nref \<times> nat \<Rightarrow> nat \<Rightarrow>
     ('n, 'o) obj list \<times> ('n, 'o) node \<times> nref \<times> nat" where
  "avisit cb A x =
     (case A of (R, dp, pr, nl) \<Rightarrow>
        (case (case pr of DummyPrev \<Rightarrow> Some dp | ObjRef p \<Rightarrow> map_option onode (findObj p R)) of
           None \<Rightarrow> A
         | Some pv \<Rightarrow>
             (case findObj x R of
                None \<Rightarrow> A
              | Some xo \<Rightarrow>
                  (case cb (onode xo) pv of
                     (node', prev', res) \<Rightarrow>
                       (let R1 = (case pr of DummyPrev \<Rightarrow> R | ObjRef p \<Rightarrow> setVal p prev' R);
                            dp1 = (case pr of DummyPrev \<Rightarrow> prev' | ObjRef p \<Rightarrow> dp);
                            R2 = setVal x node' R1
                        in (case res of
                              None \<Rightarrow> (R2, dp1, ObjRef x, nl)
                            | Some g \<Rightarrow>
                                ((case pr of
                                    DummyPrev \<Rightarrow> insFront x (Obj nl g []) R2
                                  | ObjRef p \<Rightarrow> insAfter p (Obj nl g []) R2),
                                 dp1, ObjRef x, Suc nl)))))))"

definition absOf :: "('n, 'o) tstate \<Rightarrow> ('n, 'o) obj list \<times> ('n, 'o) node \<times> nref \<times> nat" where
  "absOf st = (root st, dummyPrev st, prevNode st, nlabel st)"

text \<open>
  The invariants of the loop. \<open>INV\<close>: identities are distinct and below the next one, and the
  closure \<^verbatim>\<open>prev.insertAfter\<close> points at \<^verbatim>\<open>prev.node\<close>. \<open>POS\<close>: the counter of an invocation
  points at a given object, followed by a given rest. \<open>CL\<close>: the closure moves the counter of
  an invocation exactly when it inserts into the array of that invocation, and then before
  the counter. \<open>OBS\<close>: an invocation that is suspended while another one runs.
\<close>

definition INV :: "('n, 'o) tstate \<Rightarrow> bool" where
  "INV st \<longleftrightarrow>
     distinct (labelsOf (root st)) \<and> (\<forall>l \<in> set (labelsOf (root st)). l < nlabel st) \<and>
     (case prevInsertAfter st of
        None \<Rightarrow> prevNode st = DummyPrev
      | Some (a', idx, f') \<Rightarrow>
          f' < nframe st \<and>
          (\<exists>arr'. arrOf (root st) a' = Some arr' \<and> idx < length arr' \<and>
                   prevNode st = ObjRef (oid (arr' ! idx))))"

definition POS :: "('n, 'o) tstate \<Rightarrow> aref \<Rightarrow> nat \<Rightarrow> nat \<Rightarrow> ('n, 'o) obj list \<Rightarrow> bool" where
  "POS st a f l tail \<longleftrightarrow>
     (\<exists>arr. arrOf (root st) a = Some arr \<and> ivar st f < length arr \<and>
            oid (arr ! ivar st f) = l \<and> drop (Suc (ivar st f)) arr = tail)"

definition CL :: "('n, 'o) tstate \<Rightarrow> aref \<Rightarrow> nat \<Rightarrow> bool" where
  "CL st a f \<longleftrightarrow>
     (\<forall>a' idx f'. prevInsertAfter st = Some (a', idx, f') \<longrightarrow>
        ((a' = a) = (f' = f)) \<and> (a' = a \<longrightarrow> idx < ivar st f))"

definition touched :: "('n, 'o) tstate \<Rightarrow> nat set" where
  "touched st =
     (case prevInsertAfter st of None \<Rightarrow> {} | Some (a', idx, f') \<Rightarrow> alab a') \<union>
     (case prevNode st of DummyPrev \<Rightarrow> {} | ObjRef p \<Rightarrow> {p})"

definition target :: "('n, 'o) tstate \<Rightarrow> aref \<Rightarrow> nat \<Rightarrow> aref \<times> nat \<times> nat" where
  "target st nodes fid =
     (case prevInsertAfter st of None \<Rightarrow> (nodes, 0, fid) | Some (a', idx, f') \<Rightarrow> (a', Suc idx, f'))"

definition finish :: "aref \<Rightarrow> nat \<Rightarrow> nat \<Rightarrow> ('n, 'o) tstate \<Rightarrow> ('n, 'o) tstate" where
  "finish nodes fid x s = s\<lparr>prevNode := ObjRef x, prevInsertAfter := Some (nodes, ivar s fid, fid)\<rparr>"

definition OBS ::
  "('n, 'o) tstate \<Rightarrow> aref \<Rightarrow> nat \<Rightarrow> ('n, 'o) obj list \<Rightarrow> aref \<Rightarrow> nat \<Rightarrow> nat \<Rightarrow>
     ('n, 'o) obj list \<Rightarrow> bool" where
  "OBS st nodes fid rest a f l tail \<longleftrightarrow>
     POS st a f l tail \<and> CL st a f \<and> a \<noteq> nodes \<and> f \<noteq> fid \<and> f < nframe st \<and>
     alab a \<inter> set (labelsOf rest) = {} \<and>
     set (labelsOf tail) \<inter> (set (labelsOf rest) \<union> touched st \<union> alab nodes) = {}"

subsection \<open>The traversal on node lists\<close>

text \<open>
  The traversal by structural recursion. \<open>nonSpace\<close> is the sequence of nodes the callback
  sees; \<open>nextOf\<close> the first of them, or what follows the list. \<open>travN\<close> gives every visited
  node its final value and puts behind it what the callback returned when the next node
  was visited; \<open>p\<close> is the value of the previous node after its own visit. \<open>frontN\<close> is
  \<^verbatim>\<open>nodes.unshift\<close> in the invocation that visits the first node.
\<close>

fun nonSpace :: "('n, 'o) node list \<Rightarrow> ('n, 'o) node list" where
  "nonSpace [] = []"
| "nonSpace (Node f cs # ns) =
     (if checkPartialGroup (Node f cs) then nonSpace cs @ nonSpace ns
      else if class0 (Node f cs) = Some ''mspace'' then nonSpace ns
      else Node f cs # nonSpace ns)"

definition nextOf :: "('n, 'o) node list \<Rightarrow> ('n, 'o) node option \<Rightarrow> ('n, 'o) node option" where
  "nextOf ns nx = (case nonSpace ns of [] \<Rightarrow> nx | a # _ \<Rightarrow> Some a)"

definition own :: "('n, 'o) callback \<Rightarrow> ('n, 'o) node \<Rightarrow> ('n, 'o) node \<Rightarrow> ('n, 'o) node" where
  "own cb q a = fst (cb a q)"

definition after ::
  "('n, 'o) callback \<Rightarrow> ('n, 'o) node \<Rightarrow> ('n, 'o) node option \<Rightarrow> ('n, 'o) node list" where
  "after cb n1 nxt =
     (case nxt of
        None \<Rightarrow> [n1]
      | Some b \<Rightarrow> (case cb b n1 of (_, n2, r) \<Rightarrow> n2 # (case r of None \<Rightarrow> [] | Some g \<Rightarrow> [g])))"

fun travN ::
  "('n, 'o) callback \<Rightarrow> ('n, 'o) node \<Rightarrow> ('n, 'o) node list \<Rightarrow> ('n, 'o) node option \<Rightarrow>
     ('n, 'o) node list" where
  "travN cb p [] nx = []"
| "travN cb p (Node f cs # ns) nx =
     (if checkPartialGroup (Node f cs) then
        Node f (travN cb p cs (nextOf ns nx)) # travN cb (foldl (own cb) p (nonSpace cs)) ns nx
      else if class0 (Node f cs) = Some ''mspace'' then Node f cs # travN cb p ns nx
      else after cb (own cb p (Node f cs)) (nextOf ns nx) @ travN cb (own cb p (Node f cs)) ns nx)"

fun holdsFirst :: "('n, 'o) node list \<Rightarrow> bool" where
  "holdsFirst [] = False"
| "holdsFirst (Node f cs # ns) =
     (if checkPartialGroup (Node f cs) then nonSpace cs = [] \<and> holdsFirst ns
      else if class0 (Node f cs) = Some ''mspace'' then holdsFirst ns
      else True)"

fun frontIn :: "('n, 'o) node \<Rightarrow> ('n, 'o) node list \<Rightarrow> ('n, 'o) node list" where
  "frontIn g [] = []"
| "frontIn g (Node f cs # ns) =
     (if checkPartialGroup (Node f cs) then
        (if nonSpace cs \<noteq> [] then Node f (if holdsFirst cs then g # cs else frontIn g cs) # ns
         else Node f cs # frontIn g ns)
      else if class0 (Node f cs) = Some ''mspace'' then Node f cs # frontIn g ns
      else Node f cs # ns)"

definition frontN :: "('n, 'o) node \<Rightarrow> ('n, 'o) node list \<Rightarrow> ('n, 'o) node list" where
  "frontN g F = (if holdsFirst F then g # F else frontIn g F)"

definition passN ::
  "('n, 'o) callback \<Rightarrow> ('n, 'o) node \<Rightarrow> ('n, 'o) node list \<Rightarrow> ('n, 'o) node list" where
  "passN cb dp F =
     (case nonSpace F of
        [] \<Rightarrow> F
      | a # _ \<Rightarrow>
          (case cb a dp of
             (_, _, r) \<Rightarrow> travN cb dp (case r of None \<Rightarrow> F | Some g \<Rightarrow> frontN g F) None))"

definition dpN ::
  "('n, 'o) callback \<Rightarrow> ('n, 'o) node \<Rightarrow> ('n, 'o) node list \<Rightarrow> ('n, 'o) node" where
  "dpN cb dp F = (case nonSpace F of [] \<Rightarrow> dp | a # _ \<Rightarrow> fst (snd (cb a dp)))"

subsection \<open>A store as its shape, a valuation and the inserted objects\<close>

fun revalue :: "(nat \<Rightarrow> ('n, 'o) node) \<Rightarrow> ('n, 'o) obj list \<Rightarrow> ('n, 'o) obj list" where
  "revalue v [] = []"
| "revalue v (Obj l n ks # xs) = Obj l (v l) (revalue v ks) # revalue v xs"

fun insAll :: "(nat \<Rightarrow> ('n, 'o) obj option) \<Rightarrow> ('n, 'o) obj list \<Rightarrow> ('n, 'o) obj list" where
  "insAll M [] = []"
| "insAll M (Obj l n ks # xs) =
     Obj l n (insAll M ks) # (case M l of None \<Rightarrow> [] | Some g \<Rightarrow> [g]) @ insAll M xs"

fun atomsLV :: "('n, 'o) obj list \<Rightarrow> (nat \<times> ('n, 'o) node) list" where
  "atomsLV [] = []"
| "atomsLV (Obj l n ks # xs) =
     (if checkPartialGroup n then atomsLV ks @ atomsLV xs
      else if class0 n = Some ''mspace'' then atomsLV xs
      else (l, n) # atomsLV xs)"

definition valOf :: "('n, 'o) node \<Rightarrow> ('n, 'o) obj list \<Rightarrow> nat \<Rightarrow> ('n, 'o) node" where
  "valOf d R l = (case findObj l R of None \<Rightarrow> d | Some y \<Rightarrow> onode y)"

definition glueIs :: "('n, 'o) obj option \<Rightarrow> ('n, 'o) node option \<Rightarrow> bool" where
  "glueIs mo r = (case r of None \<Rightarrow> mo = None | Some g \<Rightarrow> (\<exists>k. mo = Some (Obj k g [])))"

fun okrP ::
  "('n, 'o) callback \<Rightarrow> (nat \<Rightarrow> ('n, 'o) node) \<Rightarrow> (nat \<Rightarrow> ('n, 'o) obj option) \<Rightarrow> nat \<Rightarrow>
     ('n, 'o) node \<Rightarrow> (nat \<times> ('n, 'o) node) list \<Rightarrow> ('n, 'o) node option \<Rightarrow> bool" where
  "okrP cb v' M' p q [] nxt =
     (case nxt of
        None \<Rightarrow> v' p = q \<and> M' p = None
      | Some b \<Rightarrow> (case cb b q of (n1, p2, r) \<Rightarrow> v' p = p2 \<and> glueIs (M' p) r))"
| "okrP cb v' M' p q ((y, yv) # ys) nxt =
     (case cb yv q of (n1, p2, r) \<Rightarrow> v' p = p2 \<and> glueIs (M' p) r \<and> okrP cb v' M' y n1 ys nxt)"

definition GL :: "(nat \<Rightarrow> ('n, 'o) obj option) \<Rightarrow> ('n, 'o) obj list \<Rightarrow> bool" where
  "GL M R \<longleftrightarrow> (\<forall>k g. M k = Some g \<longrightarrow> okids g = [] \<and> oid g \<notin> set (labelsOf R))"

definition good :: "('n, 'o) callback \<Rightarrow> bool" where
  "good cb \<longleftrightarrow>
     (\<forall>n p n' p' r. cb n p = (n', p', r) \<longrightarrow>
        (\<not> checkPartialGroup n \<longrightarrow> \<not> checkPartialGroup n') \<and>
        (\<not> checkPartialGroup p \<longrightarrow> \<not> checkPartialGroup p') \<and>
        (\<forall>g. r = Some g \<longrightarrow> \<not> checkPartialGroup g \<and> class0 g = Some ''mspace''))"

definition okr ::
  "('n, 'o) callback \<Rightarrow> (nat \<Rightarrow> ('n, 'o) node) \<Rightarrow> (nat \<Rightarrow> ('n, 'o) obj option) \<Rightarrow>
     ('n, 'o) node \<Rightarrow> (nat \<times> ('n, 'o) node) list \<Rightarrow> ('n, 'o) node option \<Rightarrow> bool" where
  "okr cb v' M' q ys nxt =
     (case ys of [] \<Rightarrow> True | (x, xv) # xs \<Rightarrow> okrP cb v' M' x (own cb q xv) xs nxt)"

definition nextv :: "(nat \<times> ('n, 'o) node) list \<Rightarrow> ('n, 'o) node option \<Rightarrow> ('n, 'o) node option" where
  "nextv ys nxt = (case ys of [] \<Rightarrow> nxt | (y, yv) # _ \<Rightarrow> Some yv)"

subsection \<open>The glue\<close>

text \<open>
  What the passes need of \<^verbatim>\<open>buildCommon.makeGlue\<close>: the glue is a span of class
  \<^verbatim>\<open>mspace\<close>. \<open>good\<close> (above) is what the traversal needs of a callback.
\<close>

definition glueOK :: "('n, 'o) ext \<Rightarrow> bool" where
  "glueOK X \<longleftrightarrow>
     (\<forall>m opts. class0 (makeGlue X m opts) = Some ''mspace'' \<and>
                \<not> checkPartialGroup (makeGlue X m opts))"

text \<open>The options of the glue, and the two dummy spans of \<^verbatim>\<open>buildExpression\<close>.\<close>

definition glueOptionsOf :: "('n, 'o) ext \<Rightarrow> pnode list \<Rightarrow> 'o \<Rightarrow> 'o" where
  "glueOptionsOf X expression options =
     (case expression of
        [Sizing m size' body] \<Rightarrow> havingSize X options size'
      | [Styling m style' body] \<Rightarrow> havingStyle X options (styleMap style')
      | _ \<Rightarrow> options)"

definition sentinel :: "('n, 'o) ext \<Rightarrow> 'o \<Rightarrow> string option \<Rightarrow> string \<Rightarrow> ('n, 'o) node" where
  "sentinel X options s d = makeSpan X (Some [truthy s d]) (Some []) (Some options) None"

text \<open>A pass on a list that is followed by the node \<^verbatim>\<open>next\<close>, without that node.\<close>

definition frontB :: "('n, 'o) node \<Rightarrow> ('n, 'o) node list \<Rightarrow> ('n, 'o) node list" where
  "frontB g B = (if nonSpace B = [] then g # B else frontN g B)"

definition passB ::
  "('n, 'o) callback \<Rightarrow> ('n, 'o) node \<Rightarrow> ('n, 'o) node list \<Rightarrow> ('n, 'o) node option \<Rightarrow>
     ('n, 'o) node list" where
  "passB cb dp B nxt =
     (case nextOf B nxt of
        None \<Rightarrow> B
      | Some a \<Rightarrow>
          (case cb a dp of
             (_, _, r) \<Rightarrow> travN cb dp (case r of None \<Rightarrow> B | Some g \<Rightarrow> frontB g B) nxt))"

definition dpB ::
  "('n, 'o) callback \<Rightarrow> ('n, 'o) node \<Rightarrow> ('n, 'o) node list \<Rightarrow> ('n, 'o) node option \<Rightarrow>
     ('n, 'o) node" where
  "dpB cb dp B nxt = (case nextOf B nxt of None \<Rightarrow> dp | Some a \<Rightarrow> fst (snd (cb a dp)))"

definition lastB ::
  "('n, 'o) callback \<Rightarrow> ('n, 'o) node \<Rightarrow> ('n, 'o) node list \<Rightarrow> ('n, 'o) node \<Rightarrow> ('n, 'o) node" where
  "lastB cb dp B s =
     (if class0 s = Some ''mspace'' then s else own cb (foldl (own cb) dp (nonSpace B)) s)"

section \<open>The two passes as the specification words them\<close>

text \<open>
  Spacing: for an adjacent pair with atom classes \<open>a\<close> and \<open>b\<close>, both non-null, the entry
  \<open>[a][b]\<close> of \<^verbatim>\<open>tightSpacings\<close> when the current node has class \<^verbatim>\<open>mtight\<close>, of \<^verbatim>\<open>spacings\<close>
  otherwise; a glue of that width when the entry is defined. \<open>glueAfter\<close> puts the glue
  behind the previous node of the pair, \<open>spacingSpec\<close> also the glue between the left
  sentinel and the first node, in front of the array that holds that node.
\<close>

definition specGlue ::
  "('n, 'o) ext \<Rightarrow> 'o \<Rightarrow> ('n, 'o) node \<Rightarrow> ('n, 'o) node \<Rightarrow> ('n, 'o) node option" where
  "specGlue X glueOptions prev cur =
     (case getTypeOfDomTree prev of
        None \<Rightarrow> None
      | Some a \<Rightarrow>
          (case getTypeOfDomTree cur of
             None \<Rightarrow> None
           | Some b \<Rightarrow>
               map_option (\<lambda>w. makeGlue X w glueOptions)
                 ((if hasClass cur ''mtight'' then tightSpacings X else spacings X) a b)))"

fun glueAfter ::
  "('n, 'o) ext \<Rightarrow> 'o \<Rightarrow> ('n, 'o) node list \<Rightarrow> ('n, 'o) node option \<Rightarrow> ('n, 'o) node list" where
  "glueAfter X glueOptions [] nx = []"
| "glueAfter X glueOptions (Node f cs # ns) nx =
     (if checkPartialGroup (Node f cs) then
        Node f (glueAfter X glueOptions cs (nextOf ns nx)) # glueAfter X glueOptions ns nx
      else if class0 (Node f cs) = Some ''mspace'' then Node f cs # glueAfter X glueOptions ns nx
      else Node f cs
             # (case nextOf ns nx of
                  None \<Rightarrow> []
                | Some b \<Rightarrow>
                    (case specGlue X glueOptions (Node f cs) b of None \<Rightarrow> [] | Some g \<Rightarrow> [g]))
             @ glueAfter X glueOptions ns nx)"

definition spacingSpec ::
  "('n, 'o) ext \<Rightarrow> 'o \<Rightarrow> ('n, 'o) node \<Rightarrow> ('n, 'o) node list \<Rightarrow> ('n, 'o) node option \<Rightarrow>
     ('n, 'o) node list" where
  "spacingSpec X glueOptions left F nx =
     (case nextOf F nx of
        None \<Rightarrow> F
      | Some a \<Rightarrow>
          glueAfter X glueOptions
            (case specGlue X glueOptions left a of None \<Rightarrow> F | Some g \<Rightarrow> frontB g F) nx)"

text \<open>
  Bin cancellation: in a sequence of atom classes between the classes of the two sentinels,
  no \<^verbatim>\<open>mbin\<close> comes right after a left canceller or right before a right canceller.
  \<open>lcancel\<close> and \<open>rcancel\<close> are the two rewrites of \<^verbatim>\<open>mbin\<close> to \<^verbatim>\<open>mord\<close>.
\<close>

fun binsCancelled :: "string option \<Rightarrow> string option list \<Rightarrow> string option \<Rightarrow> bool" where
  "binsCancelled prev [] next' = True"
| "binsCancelled prev (c # cs) next' =
     ((c = Some ''mbin'' \<longrightarrow>
         \<not> contains binLeftCanceller prev \<and>
         \<not> contains binRightCanceller (case cs of [] \<Rightarrow> next' | d # _ \<Rightarrow> d)) \<and>
      binsCancelled c cs next')"

definition isAtom :: "('n, 'o) node \<Rightarrow> bool" where
  "isAtom n \<longleftrightarrow> \<not> checkPartialGroup n \<and> class0 n \<noteq> Some ''mspace''"

definition lcancel :: "('n, 'o) node \<Rightarrow> ('n, 'o) node \<Rightarrow> ('n, 'o) node" where
  "lcancel p a =
     (if class0 a = Some ''mbin'' \<and> contains binLeftCanceller (class0 p)
      then setClass0 ''mord'' a else a)"

definition rcancel :: "('n, 'o) node \<Rightarrow> ('n, 'o) node option \<Rightarrow> ('n, 'o) node" where
  "rcancel n nxt =
     (case nxt of
        None \<Rightarrow> n
      | Some b \<Rightarrow>
          if class0 n = Some ''mbin'' \<and> contains binRightCanceller (class0 b)
          then setClass0 ''mord'' n else n)"

text \<open>
  The result of the first pass of \<^verbatim>\<open>buildExpression\<close> on the built list \<open>groups\<close>: the left
  dummy span, the list, and the node that follows the list for the second pass (the right
  dummy span, unless it is a space).
\<close>

definition binCancelled ::
  "('n, 'o) ext \<Rightarrow> 'o \<Rightarrow> string option \<times> string option \<Rightarrow> ('n, 'o) node list \<Rightarrow>
     ('n, 'o) node \<times> ('n, 'o) node list \<times> ('n, 'o) node option" where
  "binCancelled X options surrounding groups =
     (let left = sentinel X options (fst surrounding) ''leftmost'';
          right = sentinel X options (snd surrounding) ''rightmost'';
          nx = nextOf [right] None
      in (dpB cancelBin left groups nx, travN cancelBin left groups nx,
          nextOf [lastB cancelBin left groups right] None))"

text \<open>A list of nodes with every partial group replaced by its children.\<close>

fun flat :: "('n, 'o) node list \<Rightarrow> ('n, 'o) node list" where
  "flat [] = []"
| "flat (Node f cs # ns) =
     (if checkPartialGroup (Node f cs) then flat cs @ flat ns else Node f cs # flat ns)"

section \<open>Theorems\<close>

subsection \<open>The traversal on the store\<close>

text \<open>
  The loop of \<^verbatim>\<open>traverseNonSpaceNodes\<close> on the store returns, and what it returns is the
  traversal on node lists.
\<close>

lemma labelsOf_append [simp]: "labelsOf (xs @ ys) = labelsOf xs @ labelsOf ys"
  by (induction xs rule: labelsOf.induct) auto

lemma labelsOf_Cons: "labelsOf (x # xs) = oid x # labelsOf (okids x) @ labelsOf xs"
  by (cases x) simp

lemma oid_in_labelsOf: "x \<in> set xs \<Longrightarrow> oid x \<in> set (labelsOf xs)"
  by (induction xs rule: labelsOf.induct) auto

lemma kids_in_labelsOf: "x \<in> set xs \<Longrightarrow> set (labelsOf (okids x)) \<subseteq> set (labelsOf xs)"
  by (induction xs rule: labelsOf.induct) auto

lemma labelsOf_take_drop:
  "set (labelsOf (take k xs)) \<subseteq> set (labelsOf xs)" "set (labelsOf (drop k xs)) \<subseteq> set (labelsOf xs)"
  by (metis Un_upper1 Un_upper2 append_take_drop_id labelsOf_append set_append)+

lemma findObj_None_iff: "findObj l R = None \<longleftrightarrow> l \<notin> set (labelsOf R)"
  by (induction l R rule: findObj.induct) (auto split: option.splits)

lemma findObj_oid: "findObj l R = Some y \<Longrightarrow> oid y = l"
  by (induction l R rule: findObj.induct) (auto split: option.splits if_splits)

lemma findObj_labels:
  "findObj l R = Some y \<Longrightarrow> set (labelsOf (okids y)) \<subseteq> set (labelsOf R)"
  by (induction l R rule: findObj.induct) (auto split: option.splits if_splits)

lemma findObj_kids_distinct:
  "findObj l R = Some y \<Longrightarrow> distinct (labelsOf R) \<Longrightarrow>
     distinct (labelsOf (okids y)) \<and> l \<notin> set (labelsOf (okids y))"
  by (induction l R rule: findObj.induct) (auto split: option.splits if_splits)

lemma findObj_append:
  "findObj l (xs @ ys) = (case findObj l xs of Some y \<Rightarrow> Some y | None \<Rightarrow> findObj l ys)"
  by (induction l xs rule: findObj.induct) (auto split: option.splits)

lemma findObj_top:
  "distinct (labelsOf R) \<Longrightarrow> x \<in> set R \<Longrightarrow> findObj (oid x) R = Some x"
proof (induction R rule: labelsOf.induct)
  case 1
  then show ?case by simp
next
  case (2 l n ks xs)
  show ?case
  proof (cases "x = Obj l n ks")
    case True
    then show ?thesis by simp
  next
    case False
    with 2 have x: "x \<in> set xs" by simp
    then have "oid x \<in> set (labelsOf xs)" by (rule oid_in_labelsOf)
    with 2(3) have "oid x \<noteq> l" "oid x \<notin> set (labelsOf ks)" by auto
    then have "findObj (oid x) ks = None" by (simp add: findObj_None_iff)
    with 2 x \<open>oid x \<noteq> l\<close> show ?thesis by simp
  qed
qed

lemma findObj_sub:
  "findObj l R = Some y \<Longrightarrow> distinct (labelsOf R) \<Longrightarrow> x \<in> set (okids y) \<Longrightarrow>
     findObj (oid x) R = Some x"
proof (induction l R rule: findObj.induct)
  case (1 l)
  then show ?case by simp
next
  case (2 l i n ks xs)
  have dk: "distinct (labelsOf ks)" and dx: "distinct (labelsOf xs)"
    using 2(4) by auto
  show ?case
  proof (cases "i = l")
    case True
    with 2 have y: "y = Obj i n ks" by simp
    with 2(5) have "x \<in> set ks" by simp
    then have f: "findObj (oid x) ks = Some x"
      using dk by (simp add: findObj_top)
    from \<open>x \<in> set ks\<close> have "oid x \<in> set (labelsOf ks)" by (rule oid_in_labelsOf)
    with 2(4) have "oid x \<noteq> i" by auto
    with f show ?thesis by simp
  next
    case False
    show ?thesis
    proof (cases "findObj l ks")
      case None
      with False 2 have fx: "findObj l xs = Some y" by simp
      from 2(2) [OF False None fx dx 2(5)] have r: "findObj (oid x) xs = Some x" .
      then have "oid x \<in> set (labelsOf xs)"
        using findObj_None_iff [of "oid x" xs] by auto
      with 2(4) have "oid x \<noteq> i" "findObj (oid x) ks = None"
        by (auto simp: findObj_None_iff)
      with r show ?thesis by simp
    next
      case (Some z)
      with False 2(3) have "z = y" by simp
      with 2(1) [OF False] Some dk 2(5) have r: "findObj (oid x) ks = Some x" by simp
      then have "oid x \<in> set (labelsOf ks)"
        using findObj_None_iff [of "oid x" ks] by auto
      with 2(4) have "oid x \<noteq> i" by auto
      with r show ?thesis by simp
    qed
  qed
qed

lemma modObj_append [simp]: "modObj l f (xs @ ys) = modObj l f xs @ modObj l f ys"
  by (induction l f xs rule: modObj.induct) auto

lemma modObj_notin: "l \<notin> set (labelsOf xs) \<Longrightarrow> modObj l f xs = xs"
  by (induction l f xs rule: modObj.induct) auto

lemma modObj_length [simp]: "length (modObj l f xs) = length xs"
  by (induction l f xs rule: modObj.induct) auto

lemma modObj_oid:
  "(\<And>y. oid (f y) = oid y) \<Longrightarrow> map oid (modObj l f xs) = map oid xs"
  by (induction l f xs rule: modObj.induct) auto

lemma modObj_find:
  assumes "distinct (labelsOf R)"
    and "\<And>y. oid (f y) = oid y"
    and "\<And>y k. k \<noteq> g \<Longrightarrow> findObj k (okids (f y)) = findObj k (okids y)"
    and "k \<noteq> g"
  shows "findObj k (modObj l f R)
           = map_option (\<lambda>y. if oid y = l then f y
                              else Obj (oid y) (onode y) (modObj l f (okids y)))
               (findObj k R)"
  using assms(1)
proof (induction R rule: labelsOf.induct)
  case 1
  then show ?case by simp
next
  case (2 i n ks xs)
  have dk: "distinct (labelsOf ks)" and dx: "distinct (labelsOf xs)"
    using 2(3) by auto
  show ?case
  proof (cases "i = l")
    case True
    have lx: "l \<notin> set (labelsOf xs)" and lk: "l \<notin> set (labelsOf ks)"
      using 2(3) True by auto
    obtain n' ks' where f: "f (Obj l n ks) = Obj l n' ks'"
      using assms(2) [of "Obj l n ks"] by (cases "f (Obj l n ks)") auto
    have fk: "findObj k ks' = findObj k ks"
      using assms(3) [OF assms(4), of "Obj l n ks"] f by simp
    show ?thesis
    proof (cases "k = l")
      case True
      with \<open>i = l\<close> f show ?thesis by simp
    next
      case False
      show ?thesis
      proof (cases "findObj k ks")
        case None
        with False \<open>i = l\<close> f fk lx show ?thesis
          using 2(2) [OF dx] by (simp add: modObj_notin)
      next
        case (Some y)
        have "set (labelsOf (okids y)) \<subseteq> set (labelsOf ks)"
          using Some by (rule findObj_labels)
        with lk have "modObj l f (okids y) = okids y"
          by (auto intro: modObj_notin)
        moreover have "oid y = k" using Some by (rule findObj_oid)
        ultimately show ?thesis
          using False \<open>i = l\<close> f fk Some lx by (cases y) (simp add: modObj_notin)
      qed
    qed
  next
    case False
    then show ?thesis
      using 2(1) [OF dk] 2(2) [OF dx] by (auto split: option.splits)
  qed
qed

lemma getArr_putNode:
  assumes "distinct (labelsOf (root st))"
  shows "getArr (putNode (ObjRef l) n st) a = map_option (setVal l n) (getArr st a)"
proof (cases a)
  case TopArray
  then show ?thesis by (simp add: getArr_def putNode_def)
next
  case (ChildrenOf k)
  have "findObj k (setVal l n (root st))
          = map_option (\<lambda>y. if oid y = l then Obj (oid y) n (okids y)
                             else Obj (oid y) (onode y) (setVal l n (okids y)))
              (findObj k (root st))"
    by (rule modObj_find [where g = "Suc k", OF assms]) simp_all
  moreover have "okids y = setVal l n (okids y)" if "findObj k (root st) = Some y" "oid y = l" for y
    using findObj_kids_distinct [OF that(1) assms] that(2) findObj_oid [OF that(1)]
    by (simp add: modObj_notin)
  ultimately show ?thesis
    using ChildrenOf by (auto simp: getArr_def putNode_def split: option.splits)
qed

lemma getArr_putNode_dummy [simp]: "getArr (putNode DummyPrev n st) a = getArr st a"
  by (cases a) (simp_all add: getArr_def putNode_def)

lemma getNode_putNode_same:
  "distinct (labelsOf (root st)) \<Longrightarrow> l \<in> set (labelsOf (root st)) \<Longrightarrow>
     getNode (putNode (ObjRef l) n st) (ObjRef l) = Some n"
  using modObj_find [where g = "Suc l" and k = l and l = l and R = "root st"
      and f = "\<lambda>x. Obj (oid x) n (okids x)"] findObj_oid [of l "root st"]
  by (cases "findObj l (root st)") (auto simp: getNode_def putNode_def findObj_None_iff)

lemma getNode_putNode_other:
  "distinct (labelsOf (root st)) \<Longrightarrow> k \<noteq> l \<Longrightarrow>
     getNode (putNode (ObjRef l) n st) (ObjRef k) = getNode st (ObjRef k)"
  using modObj_find [where g = "Suc k" and k = k and l = l and R = "root st"
      and f = "\<lambda>x. Obj (oid x) n (okids x)"] findObj_oid [of k "root st"]
  by (cases "findObj k (root st)") (auto simp: getNode_def putNode_def)

lemma labelsOf_setVal [simp]: "labelsOf (setVal l n R) = labelsOf R"
  by (induction R rule: labelsOf.induct) auto

lemma getArr_arrOf: "getArr st a = arrOf (root st) a"
  by (auto simp: getArr_def arrOf_def split: aref.splits option.splits)

lemma arrOf_distinct:
  "arrOf R a = Some arr \<Longrightarrow> distinct (labelsOf R) \<Longrightarrow>
     distinct (labelsOf arr) \<and> set (labelsOf arr) \<subseteq> set (labelsOf R) \<and> alab a \<inter> set (labelsOf arr) = {}"
  using findObj_kids_distinct findObj_labels
  by (cases a) (fastforce simp: arrOf_def alab_def)+

lemma arrOf_alab:
  "arrOf R a = Some arr \<Longrightarrow> alab a \<subseteq> set (labelsOf R)"
proof (cases a)
  case TopArray
  then show ?thesis by (simp add: alab_def)
next
  case (ChildrenOf l)
  assume "arrOf R a = Some arr"
  with ChildrenOf have "findObj l R \<noteq> None" by (auto simp: arrOf_def)
  then have "l \<in> set (labelsOf R)" by (simp add: findObj_None_iff)
  with ChildrenOf show ?thesis by (simp add: alab_def)
qed

lemma modObj_map:
  "modObj l f xs
     = map (\<lambda>x. if oid x = l then f x else Obj (oid x) (onode x) (modObj l f (okids x))) xs"
  by (induction l f xs rule: modObj.induct) auto

lemma modObj_drop: "drop k (modObj l f xs) = modObj l f (drop k xs)"
  by (subst (1 2) modObj_map) (simp add: drop_map)

lemma modObj_nth_oid:
  "(\<And>y. oid (f y) = oid y) \<Longrightarrow> i < length xs \<Longrightarrow> oid (modObj l f xs ! i) = oid (xs ! i)"
  using modObj_oid [of f l xs] by (metis length_map modObj_length nth_map)

lemma modObj_cong_found:
  assumes "distinct (labelsOf R)" "\<And>z. findObj l R = Some z \<Longrightarrow> f z = f' z"
  shows "modObj l f R = modObj l f' R"
  using assms
proof (induction R rule: labelsOf.induct)
  case 1
  then show ?case by simp
next
  case (2 i n ks xs)
  have dk: "distinct (labelsOf ks)" and dx: "distinct (labelsOf xs)" using 2(3) by auto
  show ?case
  proof (cases "i = l")
    case True
    then have "l \<notin> set (labelsOf xs)" using 2(3) by auto
    then show ?thesis using True 2(4) [of "Obj i n ks"] by (simp add: modObj_notin)
  next
    case False
    show ?thesis
    proof (cases "findObj l ks")
      case None
      then have "l \<notin> set (labelsOf ks)" by (simp add: findObj_None_iff)
      moreover have "modObj l f xs = modObj l f' xs"
        using 2(2) [OF dx] 2(4) False None by simp
      ultimately show ?thesis using False by (simp add: modObj_notin)
    next
      case (Some y)
      then have "l \<in> set (labelsOf ks)" using findObj_None_iff [of l ks] by auto
      then have "l \<notin> set (labelsOf xs)" using 2(3) by auto
      moreover have "modObj l f ks = modObj l f' ks"
        using 2(1) [OF dk] 2(4) False Some by simp
      ultimately show ?thesis using False by (simp add: modObj_notin)
    qed
  qed
qed

lemma root_putArr:
  assumes "distinct (labelsOf (root st))" "getArr st a = Some arr"
  shows "root (putArr a (F arr) st) = updArr a F (root st)"
proof (cases a)
  case TopArray
  then show ?thesis using assms by (simp add: putArr_def updArr_def getArr_def)
next
  case (ChildrenOf l)
  have "modObj l (\<lambda>x. Obj (oid x) (onode x) (F arr)) (root st)
          = modObj l (\<lambda>x. Obj (oid x) (onode x) (F (okids x))) (root st)"
    using assms ChildrenOf
    by (intro modObj_cong_found) (auto simp: getArr_def split: option.splits)
  then show ?thesis using ChildrenOf by (simp add: putArr_def updArr_def)
qed

lemma arrOf_updArr:
  assumes "distinct (labelsOf R)"
    and "\<And>xs k. k \<noteq> g \<Longrightarrow> findObj k (F xs) = findObj k xs"
    and "alab a \<inter> {g} = {}"
  shows "arrOf (updArr a' F R) a
           = (if a = a' then map_option F (arrOf R a)
              else map_option (case a' of TopArray \<Rightarrow> (\<lambda>xs. xs)
                     | ChildrenOf l \<Rightarrow> modObj l (\<lambda>x. Obj (oid x) (onode x) (F (okids x))))
                     (arrOf R a))"
proof (cases a')
  case TopArray
  then show ?thesis
    using assms(2,3) by (cases a) (auto simp: arrOf_def updArr_def alab_def option.map_comp option.map_ident)
next
  case (ChildrenOf l)
  let ?h = "\<lambda>x. Obj (oid x) (onode x) (F (okids x))"
  show ?thesis
  proof (cases a)
    case TopArray
    then show ?thesis using ChildrenOf by (simp add: arrOf_def updArr_def)
  next
    case (ChildrenOf k)
    then have kg: "k \<noteq> g" using assms(3) by (simp add: alab_def)
    have "findObj k (modObj l ?h R)
            = map_option (\<lambda>y. if oid y = l then ?h y
                               else Obj (oid y) (onode y) (modObj l ?h (okids y)))
                (findObj k R)"
      by (rule modObj_find [where g = g, OF assms(1) _ _ kg]) (simp_all add: assms(2))
    then show ?thesis
      using ChildrenOf \<open>a' = ChildrenOf l\<close> findObj_oid [of k R]
      by (cases "findObj k R") (auto simp: arrOf_def updArr_def)
  qed
qed

lemma labelsOf_single: "labelsOf (x # xs) = labelsOf [x] @ labelsOf xs"
  by (cases x) simp

lemma labelsOf_modObj_ins:
  assumes "distinct (labelsOf R)" "g \<notin> set (labelsOf R)"
    and "\<And>y. g \<notin> set (labelsOf [y]) \<Longrightarrow> distinct (labelsOf [y]) \<Longrightarrow>
           distinct (labelsOf [h y]) \<and> set (labelsOf [h y]) = insert g (set (labelsOf [y]))"
  shows "distinct (labelsOf (modObj l h R)) \<and>
         set (labelsOf (modObj l h R))
           = (if l \<in> set (labelsOf R) then insert g (set (labelsOf R)) else set (labelsOf R))"
  using assms(1,2)
proof (induction R rule: labelsOf.induct)
  case 1
  then show ?case by simp
next
  case (2 i n ks xs)
  have dk: "distinct (labelsOf ks)" and dx: "distinct (labelsOf xs)"
    and gk: "g \<notin> set (labelsOf ks)" and gx: "g \<notin> set (labelsOf xs)" and gi: "g \<noteq> i"
    and ik: "i \<notin> set (labelsOf ks)" and ix: "i \<notin> set (labelsOf xs)"
    and kx: "set (labelsOf ks) \<inter> set (labelsOf xs) = {}"
    using 2(3,4) by auto
  note IHk = 2(1) [OF dk gk] and IHx = 2(2) [OF dx gx]
  show ?case
  proof (cases "i = l")
    case True
    have h: "distinct (labelsOf [h (Obj i n ks)]) \<and>
             set (labelsOf [h (Obj i n ks)]) = insert g (set (labelsOf [Obj i n ks]))"
      using dk gk gi ik by (intro assms(3)) auto
    have "modObj l h (Obj i n ks # xs) = h (Obj i n ks) # xs"
      using True ix by (simp add: modObj_notin)
    then have "labelsOf (modObj l h (Obj i n ks # xs)) = labelsOf [h (Obj i n ks)] @ labelsOf xs"
      using labelsOf_single [of "h (Obj i n ks)" xs] by simp
    then show ?thesis using h True dx gx ix kx by auto
  next
    case False
    then show ?thesis using IHk IHx gi ik ix kx gk gx by (auto split: if_splits)
  qed
qed

lemma labelsOf_updArr:
  assumes "distinct (labelsOf R)" "g \<notin> set (labelsOf R)" "arrOf R a = Some arr"
    and "\<And>xs. g \<notin> set (labelsOf xs) \<Longrightarrow> distinct (labelsOf xs) \<Longrightarrow>
           distinct (labelsOf (F xs)) \<and> set (labelsOf (F xs)) = insert g (set (labelsOf xs))"
  shows "distinct (labelsOf (updArr a F R)) \<and>
         set (labelsOf (updArr a F R)) = insert g (set (labelsOf R))"
proof (cases a)
  case TopArray
  then show ?thesis using assms by (simp add: updArr_def)
next
  case (ChildrenOf l)
  then have "l \<in> set (labelsOf R)" using arrOf_alab [OF assms(3)] by (simp add: alab_def)
  moreover have "distinct (labelsOf [Obj (oid y) (onode y) (F (okids y))]) \<and>
        set (labelsOf [Obj (oid y) (onode y) (F (okids y))]) = insert g (set (labelsOf [y]))"
    if "g \<notin> set (labelsOf [y])" "distinct (labelsOf [y])" for y
    using that assms(4) [of "okids y"] by (cases y) auto
  ultimately show ?thesis
    using labelsOf_modObj_ins [OF assms(1,2), of "\<lambda>x. Obj (oid x) (onode x) (F (okids x))" l]
      ChildrenOf by (simp add: updArr_def)
qed

lemma spliceF_labels:
  assumes "g \<notin> set (labelsOf xs)" "distinct (labelsOf xs)"
  shows "distinct (labelsOf (take k xs @ [Obj g n []] @ drop k xs)) \<and>
         set (labelsOf (take k xs @ [Obj g n []] @ drop k xs)) = insert g (set (labelsOf xs))"
proof -
  have "labelsOf xs = labelsOf (take k xs) @ labelsOf (drop k xs)"
    by (metis append_take_drop_id labelsOf_append)
  then show ?thesis using assms by auto
qed

lemma spliceF_find:
  "k \<noteq> g \<Longrightarrow> findObj k (take j xs @ [Obj g n []] @ drop j xs) = findObj k xs"
proof -
  assume "k \<noteq> g"
  then have "findObj k (take j xs @ [Obj g n []] @ drop j xs) = findObj k (take j xs @ drop j xs)"
    unfolding findObj_append by (simp split: option.splits)
  then show ?thesis by simp
qed

lemma insAfter_notin: "p \<notin> set (labelsOf R) \<Longrightarrow> insAfter p g R = R"
  by (induction p g R rule: insAfter.induct) auto

lemma insAfter_top:
  "distinct (labelsOf R) \<Longrightarrow> idx < length R \<Longrightarrow> oid (R ! idx) = p \<Longrightarrow>
     insAfter p g R = take (Suc idx) R @ [g] @ drop (Suc idx) R"
proof (induction R arbitrary: idx rule: labelsOf.induct)
  case 1
  then show ?case by simp
next
  case (2 l n ks xs)
  show ?case
  proof (cases idx)
    case 0
    then show ?thesis using 2 by simp
  next
    case (Suc j)
    then have j: "j < length xs" "oid (xs ! j) = p" using 2 by auto
    then have "p \<in> set (labelsOf xs)" using oid_in_labelsOf [of "xs ! j" xs] by auto
    then have "p \<noteq> l" "p \<notin> set (labelsOf ks)" using 2(3) by auto
    then show ?thesis using 2(2) [of j] 2(3) j Suc by (simp add: insAfter_notin)
  qed
qed

lemma insAfter_child:
  "distinct (labelsOf R) \<Longrightarrow> findObj la R = Some y \<Longrightarrow> p \<in> oid ` set (okids y) \<Longrightarrow>
     insAfter p g R = modObj la (\<lambda>x. Obj (oid x) (onode x) (insAfter p g (okids x))) R"
proof (induction R rule: labelsOf.induct)
  case 1
  then show ?case by simp
next
  case (2 i n ks xs)
  let ?h = "\<lambda>x. Obj (oid x) (onode x) (insAfter p g (okids x))"
  have dk: "distinct (labelsOf ks)" and dx: "distinct (labelsOf xs)" using 2(3) by auto
  show ?case
  proof (cases "i = la")
    case True
    then have "y = Obj i n ks" using 2(4) by simp
    then have "p \<in> set (labelsOf ks)" using 2(5) oid_in_labelsOf by fastforce
    then have "p \<noteq> i" "p \<notin> set (labelsOf xs)" "la \<notin> set (labelsOf xs)"
      using 2(3) True by auto
    then show ?thesis using True by (simp add: insAfter_notin modObj_notin)
  next
    case False
    show ?thesis
    proof (cases "findObj la ks")
      case None
      then have fx: "findObj la xs = Some y" using 2(4) False by simp
      have lk: "la \<notin> set (labelsOf ks)" using None by (simp add: findObj_None_iff)
      have "p \<in> set (labelsOf xs)"
        using findObj_labels [OF fx] 2(5) kids_in_labelsOf oid_in_labelsOf by fastforce
      then have "p \<noteq> i" "p \<notin> set (labelsOf ks)" using 2(3) by auto
      then show ?thesis
        using False lk 2(2) [OF dx fx 2(5)] by (simp add: insAfter_notin modObj_notin)
    next
      case (Some z)
      then have fk: "findObj la ks = Some y" using 2(4) False by simp
      then have "la \<in> set (labelsOf ks)" using findObj_None_iff [of la ks] by auto
      then have lx: "la \<notin> set (labelsOf xs)" using 2(3) by auto
      have "p \<in> set (labelsOf ks)"
        using findObj_labels [OF fk] 2(5) oid_in_labelsOf by fastforce
      then have "p \<noteq> i" "p \<notin> set (labelsOf xs)" using 2(3) by auto
      then show ?thesis
        using False lx 2(1) [OF dk fk 2(5)] by (simp add: insAfter_notin modObj_notin)
    qed
  qed
qed

lemma insAfter_updArr:
  assumes "distinct (labelsOf R)" "arrOf R a = Some arr" "idx < length arr" "oid (arr ! idx) = p"
  shows "updArr a (\<lambda>xs. take (Suc idx) xs @ [g] @ drop (Suc idx) xs) R = insAfter p g R"
proof (cases a)
  case TopArray
  then show ?thesis using assms insAfter_top [of R idx p g] by (simp add: updArr_def arrOf_def)
next
  case (ChildrenOf la)
  then obtain y where y: "findObj la R = Some y" "okids y = arr"
    using assms(2) by (auto simp: arrOf_def)
  have p: "p \<in> oid ` set (okids y)" using y assms(3,4) by auto
  have d: "distinct (labelsOf arr)" using arrOf_distinct [OF assms(2,1)] by simp
  have "modObj la (\<lambda>x. Obj (oid x) (onode x) (insAfter p g (okids x))) R
       = modObj la (\<lambda>x. Obj (oid x) (onode x) (take (Suc idx) (okids x) @ [g] @ drop (Suc idx) (okids x))) R"
    using y insAfter_top [OF d assms(3,4), of g]
    by (intro modObj_cong_found [OF assms(1)]) auto
  then show ?thesis
    using insAfter_child [OF assms(1) y(1) p, of g] ChildrenOf by (simp add: updArr_def)
qed

lemma insIn_notin: "x \<notin> set (labelsOf R) \<Longrightarrow> insIn x g R = R"
proof (induction x g R rule: insIn.induct)
  case (1 x g)
  then show ?case by simp
next
  case (2 x g l n ks xs)
  then have "x \<notin> oid ` set ks" using oid_in_labelsOf by fastforce
  then show ?case using 2 by simp
qed

lemma insIn_child:
  "distinct (labelsOf R) \<Longrightarrow> findObj la R = Some y \<Longrightarrow> x \<in> oid ` set (okids y) \<Longrightarrow>
     x \<notin> oid ` set R \<and>
     insIn x g R = modObj la (\<lambda>z. Obj (oid z) (onode z) (g # okids z)) R"
proof (induction R rule: labelsOf.induct)
  case 1
  then show ?case by simp
next
  case (2 i n ks xs)
  have dk: "distinct (labelsOf ks)" and dx: "distinct (labelsOf xs)" using 2(3) by auto
  have top: "z \<notin> oid ` set F" if "z \<notin> set (labelsOf F)" for z and F :: "('a, 'b) obj list"
    using that oid_in_labelsOf by fastforce
  show ?case
  proof (cases "i = la")
    case True
    then have y: "y = Obj i n ks" using 2(4) by simp
    then have "x \<in> set (labelsOf ks)" using 2(5) oid_in_labelsOf by fastforce
    then have "x \<noteq> i" "x \<notin> set (labelsOf xs)" "la \<notin> set (labelsOf xs)"
      using 2(3) True by auto
    then show ?thesis using True y 2(5) top [of x xs] by (simp add: insIn_notin modObj_notin)
  next
    case False
    show ?thesis
    proof (cases "findObj la ks")
      case None
      then have fx: "findObj la xs = Some y" using 2(4) False by simp
      have lk: "la \<notin> set (labelsOf ks)" using None by (simp add: findObj_None_iff)
      have "x \<in> set (labelsOf xs)"
        using findObj_labels [OF fx] 2(5) kids_in_labelsOf oid_in_labelsOf by fastforce
      then have "x \<noteq> i" "x \<notin> set (labelsOf ks)" using 2(3) by auto
      then show ?thesis
        using False lk 2(2) [OF dx fx 2(5)] top [of x ks]
        by (simp add: insIn_notin modObj_notin)
    next
      case (Some z)
      then have fk: "findObj la ks = Some y" using 2(4) False by simp
      then have "la \<in> set (labelsOf ks)" using findObj_None_iff [of la ks] by auto
      then have lx: "la \<notin> set (labelsOf xs)" using 2(3) by auto
      have "x \<in> set (labelsOf ks)"
        using findObj_labels [OF fk] 2(5) oid_in_labelsOf by fastforce
      then have "x \<noteq> i" "x \<notin> set (labelsOf xs)" using 2(3) by auto
      then show ?thesis
        using False lx 2(1) [OF dk fk 2(5)] top [of x xs]
        by (simp add: insIn_notin modObj_notin)
    qed
  qed
qed

lemma insFront_updArr:
  assumes "distinct (labelsOf R)" "arrOf R a = Some arr" "x \<in> oid ` set arr"
  shows "updArr a (\<lambda>xs. take 0 xs @ [g] @ drop 0 xs) R = insFront x g R"
proof (cases a)
  case TopArray
  then show ?thesis using assms by (simp add: updArr_def arrOf_def insFront_def)
next
  case (ChildrenOf la)
  then obtain y where y: "findObj la R = Some y" "okids y = arr"
    using assms(2) by (auto simp: arrOf_def)
  show ?thesis
    using insIn_child [OF assms(1) y(1), of x g] assms(3) y(2) ChildrenOf
    by (simp add: updArr_def insFront_def)
qed

lemma arrOf_setVal:
  assumes "distinct (labelsOf R)"
  shows "arrOf (setVal l n R) a = map_option (setVal l n) (arrOf R a)"
proof -
  have "getArr (putNode (ObjRef l) n \<lparr>root = R, dummyPrev = n, ivar = (\<lambda>f. 0), nframe = 0,
      nlabel = 0, prevNode = DummyPrev, prevInsertAfter = None\<rparr>) a
    = map_option (setVal l n) (getArr \<lparr>root = R, dummyPrev = n, ivar = (\<lambda>f. 0), nframe = 0,
      nlabel = 0, prevNode = DummyPrev, prevInsertAfter = None\<rparr> a)"
    by (rule getArr_putNode) (simp add: assms)
  then show ?thesis by (simp add: getArr_arrOf putNode_def)
qed

lemma putNode_fields [simp]:
  "ivar (putNode r n st) = ivar st" "nframe (putNode r n st) = nframe st"
  "nlabel (putNode r n st) = nlabel st" "prevNode (putNode r n st) = prevNode st"
  "prevInsertAfter (putNode r n st) = prevInsertAfter st"
  "labelsOf (root (putNode r n st)) = labelsOf (root st)"
  by (cases r; simp add: putNode_def)+

lemma arrOf_putNode:
  assumes "distinct (labelsOf (root st))"
  shows "arrOf (root (putNode r n st)) a
           = map_option (case r of DummyPrev \<Rightarrow> (\<lambda>xs. xs) | ObjRef l \<Rightarrow> setVal l n)
               (arrOf (root st) a)"
  using arrOf_setVal [OF assms]
  by (cases r) (simp_all add: putNode_def option.map_ident)

lemma POS_putNode:
  assumes "POS st a f l tail" "distinct (labelsOf (root st))"
    and "\<And>k. r = ObjRef k \<Longrightarrow> k \<notin> set (labelsOf tail)"
  shows "POS (putNode r n st) a f l tail"
proof (cases r)
  case DummyPrev
  then show ?thesis using assms(1) by (simp add: POS_def putNode_def)
next
  case (ObjRef k)
  from assms(1) obtain arr where arr: "arrOf (root st) a = Some arr" "ivar st f < length arr"
    "oid (arr ! ivar st f) = l" "drop (Suc (ivar st f)) arr = tail"
    by (auto simp: POS_def)
  have "drop (Suc (ivar st f)) (setVal k n arr) = tail"
    using arr(4) assms(3) [OF ObjRef] by (simp add: modObj_drop modObj_notin)
  moreover have "oid (setVal k n arr ! ivar st f) = l"
    using arr(2,3) by (simp add: modObj_nth_oid)
  ultimately show ?thesis
    using arr(1,2) ObjRef arrOf_putNode [OF assms(2), of r n a]
    by (auto simp: POS_def)
qed

lemma INV_putNode:
  assumes "INV st"
  shows "INV (putNode r n st)"
proof -
  have d: "distinct (labelsOf (root st))" using assms by (simp add: INV_def)
  show ?thesis
  proof (cases "prevInsertAfter st")
    case None
    then show ?thesis using assms by (simp add: INV_def)
  next
    case (Some c)
    obtain a' idx f' where c: "c = (a', idx, f')" by (cases c) auto
    from assms Some c obtain arr' where arr': "arrOf (root st) a' = Some arr'" "idx < length arr'"
      "prevNode st = ObjRef (oid (arr' ! idx))" and f': "f' < nframe st"
      by (auto simp: INV_def)
    have "\<exists>arr2. arrOf (root (putNode r n st)) a' = Some arr2 \<and> idx < length arr2 \<and>
           oid (arr2 ! idx) = oid (arr' ! idx)"
      using arrOf_putNode [OF d, of r n a'] arr'(1,2)
      by (cases r) (auto simp: modObj_nth_oid)
    then show ?thesis using assms Some c arr'(3) f' by (auto simp: INV_def)
  qed
qed

lemma touched_putNode [simp]: "touched (putNode r n st) = touched st"
  by (simp add: touched_def)

lemma CL_putNode [simp]: "CL (putNode r n st) a f = CL st a f"
  by (simp add: CL_def)

lemma putArr_fields [simp]:
  "ivar (putArr a ks st) = ivar st" "nframe (putArr a ks st) = nframe st"
  "nlabel (putArr a ks st) = nlabel st" "prevNode (putArr a ks st) = prevNode st"
  "prevInsertAfter (putArr a ks st) = prevInsertAfter st"
  "dummyPrev (putArr a ks st) = dummyPrev st"
  by (cases a; simp add: putArr_def)+

lemma incr_fields [simp]:
  "root (incr f st) = root st" "nframe (incr f st) = nframe st"
  "nlabel (incr f st) = nlabel st" "prevNode (incr f st) = prevNode st"
  "prevInsertAfter (incr f st) = prevInsertAfter st"
  "dummyPrev (incr f st) = dummyPrev st"
  "ivar (incr f st) = (ivar st)(f := Suc (ivar st f))"
  by (simp_all add: incr_def)

lemma splice_step:
  assumes "distinct (labelsOf (root s))" "\<forall>l \<in> set (labelsOf (root s)). l < nlabel s"
    and "arrOf (root s) a' = Some arr'"
  shows "\<exists>s2. splice a' k g s = Some s2 \<and>
           root s2 = updArr a' (\<lambda>xs. take k xs @ [Obj (nlabel s) g []] @ drop k xs) (root s) \<and>
           nlabel s2 = Suc (nlabel s) \<and> ivar s2 = ivar s \<and> nframe s2 = nframe s \<and>
           dummyPrev s2 = dummyPrev s \<and> prevNode s2 = prevNode s \<and>
           prevInsertAfter s2 = prevInsertAfter s \<and>
           distinct (labelsOf (root s2)) \<and>
           set (labelsOf (root s2)) = insert (nlabel s) (set (labelsOf (root s)))"
proof -
  let ?F = "\<lambda>xs. take k xs @ [Obj (nlabel s) g []] @ drop k xs"
  have ga: "getArr s a' = Some arr'" using assms(3) by (simp add: getArr_arrOf)
  have fresh: "nlabel s \<notin> set (labelsOf (root s))" using assms(2) by auto
  have r: "root (putArr a' (?F arr') s) = updArr a' ?F (root s)"
    by (rule root_putArr [OF assms(1) ga])
  have "distinct (labelsOf (updArr a' ?F (root s))) \<and>
        set (labelsOf (updArr a' ?F (root s))) = insert (nlabel s) (set (labelsOf (root s)))"
    by (rule labelsOf_updArr [OF assms(1) fresh assms(3)]) (rule spliceF_labels)
  then show ?thesis using ga r by (simp add: splice_def)
qed

lemma POS_splice:
  assumes pos: "POS s a f l tail"
    and d: "distinct (labelsOf (root s))" and fr: "\<forall>l \<in> set (labelsOf (root s)). l < nlabel s"
    and fa: "(a = a') = (f = f')" and k: "a = a' \<longrightarrow> k \<le> ivar s f"
    and dj: "alab a' \<inter> set (labelsOf tail) = {}"
    and r2: "root s2 = updArr a' (\<lambda>xs. take k xs @ [Obj (nlabel s) g []] @ drop k xs) (root s)"
    and i2: "ivar s2 = ivar s"
  shows "POS (incr f' s2) a f l tail"
proof -
  let ?F = "\<lambda>xs. take k xs @ [Obj (nlabel s) g []] @ drop k xs"
  let ?i = "ivar s f"
  from pos obtain arr where arr: "arrOf (root s) a = Some arr" "?i < length arr"
    "oid (arr ! ?i) = l" "drop (Suc ?i) arr = tail"
    by (auto simp: POS_def)
  have "alab a \<subseteq> set (labelsOf (root s))" using arr(1) by (rule arrOf_alab)
  then have ag: "alab a \<inter> {nlabel s} = {}" using fr by auto
  have A: "arrOf (root s2) a
        = (if a = a' then map_option ?F (arrOf (root s) a)
           else map_option (case a' of TopArray \<Rightarrow> (\<lambda>xs. xs)
                  | ChildrenOf l \<Rightarrow> modObj l (\<lambda>x. Obj (oid x) (onode x) (?F (okids x))))
                  (arrOf (root s) a))"
    unfolding r2 by (rule arrOf_updArr [OF d _ ag]) (rule spliceF_find)
  show ?thesis
  proof (cases "a = a'")
    case True
    then have f: "f' = f" and ki: "k \<le> ?i" using fa k by auto
    have 1: "arrOf (root s2) a = Some (?F arr)" using A True arr(1) by simp
    have 2: "?F arr ! Suc ?i = arr ! ?i"
      using ki arr(2) by (simp add: nth_append Suc_diff_le)
    have 3: "drop (Suc (Suc ?i)) (?F arr) = drop (Suc ?i) arr"
      using ki arr(2) by (simp add: Suc_diff_le)
    show ?thesis
      unfolding POS_def using 1 2 3 arr f i2 by (intro exI [of _ "?F arr"]) simp
  next
    case False
    then have f: "f' \<noteq> f" using fa by auto
    show ?thesis
    proof (cases a')
      case TopArray
      then show ?thesis
        unfolding POS_def using A False arr f i2 by (intro exI [of _ arr]) simp
    next
      case (ChildrenOf la)
      let ?h = "\<lambda>x. Obj (oid x) (onode x) (?F (okids x))"
      have la: "la \<notin> set (labelsOf tail)" using dj ChildrenOf by (simp add: alab_def)
      have 1: "arrOf (root s2) a = Some (modObj la ?h arr)"
        using A False arr(1) ChildrenOf by simp
      have 2: "oid (modObj la ?h arr ! ?i) = l"
        using arr(2,3) by (simp add: modObj_nth_oid)
      have 3: "drop (Suc ?i) (modObj la ?h arr) = tail"
        using arr(4) la by (simp add: modObj_drop modObj_notin)
      show ?thesis
        unfolding POS_def using 1 2 3 arr(2) f i2
        by (intro exI [of _ "modObj la ?h arr"]) simp
    qed
  qed
qed

lemma arrOf_find:
  assumes "distinct (labelsOf R)" "arrOf R a = Some arr" "y \<in> set arr"
  shows "findObj (oid y) R = Some y"
proof (cases a)
  case TopArray
  then show ?thesis using assms findObj_top [of R y] by (simp add: arrOf_def)
next
  case (ChildrenOf la)
  then obtain z where "findObj la R = Some z" "okids z = arr"
    using assms(2) by (auto simp: arrOf_def)
  then show ?thesis using findObj_sub [of la R z y] assms(1,3) by simp
qed

lemma POS_cong: "root s = root s' \<Longrightarrow> ivar s = ivar s' \<Longrightarrow> POS s a f l tail = POS s' a f l tail"
  by (simp add: POS_def)

lemma visit_alt:
  "visit cb st nodes fid x =
     (case getNode st (prevNode st) of
        None \<Rightarrow> None
      | Some pv \<Rightarrow>
          (case cb (onode x) pv of
             (n', p', res) \<Rightarrow>
               (case res of
                  None \<Rightarrow> Some (finish nodes fid (oid x)
                                  (putNode (ObjRef (oid x)) n' (putNode (prevNode st) p' st)))
                | Some g \<Rightarrow>
                    (case target st nodes fid of
                       (ai, k, fi) \<Rightarrow>
                         map_option (\<lambda>s. finish nodes fid (oid x) (incr fi s))
                           (splice ai k g
                              (putNode (ObjRef (oid x)) n' (putNode (prevNode st) p' st)))))))"
  by (auto simp: visit_def target_def finish_def Let_def split: option.splits prod.splits)

lemma visit_step:
  fixes st :: "('n, 'o) tstate"
  assumes inv: "INV st"
    and arr: "arrOf (root st) nodes = Some arr" and i: "ivar st fid < length arr"
    and cl: "CL st nodes fid" and fid: "fid < nframe st"
    and dj: "set (labelsOf (drop (ivar st fid) arr)) \<inter> touched st = {}"
    and x: "x = arr ! ivar st fid"
  shows "\<exists>st'. visit cb st nodes fid x = Some st' \<and>
           absOf st' = avisit cb (absOf st) (oid x) \<and> INV st' \<and> nframe st' = nframe st \<and>
           prevInsertAfter st' = Some (nodes, ivar st' fid, fid) \<and> prevNode st' = ObjRef (oid x) \<and>
           (\<forall>a f l tail. POS st a f l tail \<and> CL st a f \<and> ((a = nodes) = (f = fid)) \<and>
               set (labelsOf tail) \<inter> (insert (oid x) (touched st) \<union> alab nodes) = {}
               \<longrightarrow> POS st' a f l tail)"
proof -
  let ?i = "ivar st fid"
  let ?pr = "prevNode st"
  have d: "distinct (labelsOf (root st))" and fr: "\<forall>l \<in> set (labelsOf (root st)). l < nlabel st"
    using inv by (simp_all add: INV_def)
  have xin: "x \<in> set arr" using x i by simp
  have fx: "findObj (oid x) (root st) = Some x" by (rule arrOf_find [OF d arr xin])
  have da: "distinct (labelsOf arr)" and aa: "alab nodes \<inter> set (labelsOf arr) = {}"
    using arrOf_distinct [OF arr d] by simp_all
  have split_arr: "arr = take ?i arr @ x # drop (Suc ?i) arr"
    using i x by (simp add: id_take_nth_drop)
  let ?tl = "drop (Suc ?i) arr"
  have lab_arr: "labelsOf arr = labelsOf (take ?i arr) @ labelsOf (x # ?tl)"
    using split_arr by (metis labelsOf_append)
  have xtl: "oid x \<notin> set (labelsOf ?tl)"
    using da lab_arr by (simp add: labelsOf_Cons)
  have tl_sub: "set (labelsOf ?tl) \<subseteq> set (labelsOf (drop ?i arr))"
    using i x by (simp add: Cons_nth_drop_Suc [symmetric] labelsOf_Cons) auto
  have xrest: "oid x \<in> set (labelsOf (drop ?i arr))"
    using i x by (simp add: Cons_nth_drop_Suc [symmetric] labelsOf_Cons)
  have xt: "oid x \<notin> touched st" using dj xrest by auto
  have tl_arr: "set (labelsOf ?tl) \<subseteq> set (labelsOf arr)" by (rule labelsOf_take_drop)
  have pos0: "POS st nodes fid (oid x) ?tl"
    using arr i x by (simp add: POS_def)
  have tdj: "set (labelsOf ?tl) \<inter> (insert (oid x) (touched st) \<union> alab nodes) = {}"
    using xtl tl_sub dj aa tl_arr by auto
  obtain pv where pv: "getNode st ?pr = Some pv"
    and pv': "(case ?pr of DummyPrev \<Rightarrow> Some (dummyPrev st)
               | ObjRef p \<Rightarrow> map_option onode (findObj p (root st))) = Some pv"
  proof (cases "prevInsertAfter st")
    case None
    then have "?pr = DummyPrev" using inv by (simp add: INV_def)
    then show ?thesis using that by (simp add: getNode_def)
  next
    case (Some c)
    then obtain a' idx f' arr' where "arrOf (root st) a' = Some arr'" "idx < length arr'"
      "?pr = ObjRef (oid (arr' ! idx))"
      using inv by (cases c) (auto simp: INV_def)
    moreover from this have "findObj (oid (arr' ! idx)) (root st) = Some (arr' ! idx)"
      using arrOf_find [OF d, of a' arr' "arr' ! idx"] by simp
    ultimately show ?thesis using that by (simp add: getNode_def)
  qed
  obtain n' p' res where cb: "cb (onode x) pv = (n', p', res)" by (cases "cb (onode x) pv")
  define st0 where "st0 = putNode ?pr p' st"
  define st1 where "st1 = putNode (ObjRef (oid x)) n' st0"
  have inv1: "INV st1" unfolding st1_def st0_def by (intro INV_putNode inv)
  have d1: "distinct (labelsOf (root st1))"
    and fr1: "\<forall>l \<in> set (labelsOf (root st1)). l < nlabel st1"
    using inv1 by (simp_all add: INV_def)
  have f1 [simp]: "ivar st1 = ivar st" "nframe st1 = nframe st" "nlabel st1 = nlabel st"
    "prevNode st1 = prevNode st" "prevInsertAfter st1 = prevInsertAfter st"
    "touched st1 = touched st" "\<And>a f. CL st1 a f = CL st a f"
    by (simp_all add: st1_def st0_def)
  have root1: "root st1 = setVal (oid x) n'
                  (case ?pr of DummyPrev \<Rightarrow> root st | ObjRef p \<Rightarrow> setVal p p' (root st))"
    and dp1: "dummyPrev st1 = (case ?pr of DummyPrev \<Rightarrow> p' | ObjRef p \<Rightarrow> dummyPrev st)"
    by (cases ?pr; simp add: st1_def st0_def putNode_def)+
  have pos1: "POS st1 a f l tail"
    if "POS st a f l tail" "set (labelsOf tail) \<inter> insert (oid x) (touched st) = {}" for a f l tail
  proof -
    have "POS st0 a f l tail"
      unfolding st0_def using that by (intro POS_putNode [OF that(1) d]) (auto simp: touched_def)
    moreover have "distinct (labelsOf (root st0))" using d by (simp add: st0_def)
    ultimately show ?thesis
      unfolding st1_def using that(2) by (intro POS_putNode) auto
  qed
  have pos1x: "POS st1 nodes fid (oid x) ?tl"
    using pos0 tdj by (intro pos1) auto
  show ?thesis
  proof (cases res)
    case None
    let ?st' = "finish nodes fid (oid x) st1"
    have v: "visit cb st nodes fid x = Some ?st'"
      using pv cb None by (simp add: visit_alt st1_def st0_def)
    have a: "absOf ?st' = avisit cb (absOf st) (oid x)"
      using pv' fx cb None root1 dp1
      by (simp add: absOf_def avisit_def finish_def Let_def split: nref.splits)
    have posf: "POS ?st' a f l tail = POS st1 a f l tail" for a f l tail
      by (rule POS_cong) (simp_all add: finish_def)
    have I: "INV ?st'"
      using inv1 pos1x fid by (auto simp: INV_def finish_def POS_def)
    have O: "\<forall>a f l tail. POS st a f l tail \<and> CL st a f \<and> ((a = nodes) = (f = fid)) \<and>
               set (labelsOf tail) \<inter> (insert (oid x) (touched st) \<union> alab nodes) = {}
               \<longrightarrow> POS ?st' a f l tail"
      unfolding posf by (intro allI impI pos1) auto
    have F: "nframe ?st' = nframe st" "prevInsertAfter ?st' = Some (nodes, ivar ?st' fid, fid)"
      "prevNode ?st' = ObjRef (oid x)"
      by (simp_all add: finish_def)
    show ?thesis using v a I O F by blast
  next
    case (Some g)
    obtain ai k fi where tg: "target st nodes fid = (ai, k, fi)"
      by (cases "target st nodes fid")
    obtain arri where arri: "arrOf (root st1) ai = Some arri"
    proof (cases "prevInsertAfter st")
      case None
      then have "ai = nodes" using tg by (simp add: target_def)
      then show ?thesis using pos1x that by (auto simp: POS_def)
    next
      case (Some c)
      then show ?thesis using inv1 tg that by (cases c) (auto simp: INV_def target_def)
    qed
    from splice_step [OF d1 fr1 arri, of k g] obtain s2 where
      s2: "splice ai k g st1 = Some s2"
        "root s2 = updArr ai (\<lambda>xs. take k xs @ [Obj (nlabel st1) g []] @ drop k xs) (root st1)"
        "nlabel s2 = Suc (nlabel st1)" "ivar s2 = ivar st1" "nframe s2 = nframe st1"
        "dummyPrev s2 = dummyPrev st1" "prevNode s2 = prevNode st1"
        "prevInsertAfter s2 = prevInsertAfter st1"
        "distinct (labelsOf (root s2))"
        "set (labelsOf (root s2)) = insert (nlabel st1) (set (labelsOf (root st1)))"
      by blast
    let ?st' = "finish nodes fid (oid x) (incr fi s2)"
    have v: "visit cb st nodes fid x = Some ?st'"
      using pv cb Some tg s2(1) by (simp add: visit_alt st1_def st0_def)
    have posf: "POS ?st' a f l tail = POS (incr fi s2) a f l tail" for a f l tail
      by (rule POS_cong) (simp_all add: finish_def)
    have pos2: "POS (incr fi s2) a f l tail"
      if "POS st a f l tail" "CL st a f" "(a = nodes) = (f = fid)"
        "set (labelsOf tail) \<inter> (insert (oid x) (touched st) \<union> alab nodes) = {}" for a f l tail
    proof (rule POS_splice [OF _ d1 fr1 _ _ _ s2(2) s2(4)])
      show "POS st1 a f l tail" using that by (intro pos1) auto
      show "(a = ai) = (f = fi)" "a = ai \<longrightarrow> k \<le> ivar st1 f"
        using that(2,3) tg
        by (auto simp: target_def CL_def split: option.splits)
      show "alab ai \<inter> set (labelsOf tail) = {}"
        using that(4) tg by (auto simp: target_def touched_def split: option.splits)
    qed
    have pos2x: "POS (incr fi s2) nodes fid (oid x) ?tl"
      using pos0 cl tdj by (intro pos2) auto
    have rt: "root s2 = (case ?pr of
                DummyPrev \<Rightarrow> insFront (oid x) (Obj (nlabel st) g []) (root st1)
              | ObjRef p \<Rightarrow> insAfter p (Obj (nlabel st) g []) (root st1))"
    proof (cases "prevInsertAfter st")
      case None
      then have t: "ai = nodes" "k = 0" and pr: "?pr = DummyPrev"
        using tg inv by (simp_all add: target_def INV_def)
      obtain arr1 where "arrOf (root st1) nodes = Some arr1" "ivar st fid < length arr1"
        "oid (arr1 ! ivar st fid) = oid x"
        using pos1x by (auto simp: POS_def)
      moreover from this have "oid x \<in> oid ` set arr1" by (metis imageI nth_mem)
      ultimately show ?thesis
        using insFront_updArr [OF d1, of nodes arr1 "oid x" "Obj (nlabel st) g []"] s2(2) t pr
        by simp
    next
      case (Some c)
      then obtain a' idx f' arr' where c: "c = (a', idx, f')"
        and "arrOf (root st1) a' = Some arr'" "idx < length arr'"
        "?pr = ObjRef (oid (arr' ! idx))"
        using inv1 by (cases c) (auto simp: INV_def)
      moreover have "ai = a'" "k = Suc idx" using tg Some c by (simp_all add: target_def)
      ultimately show ?thesis
        using insAfter_updArr [OF d1, of a' arr' idx "oid (arr' ! idx)" "Obj (nlabel st) g []"] s2(2)
        by simp
    qed
    have a: "absOf ?st' = avisit cb (absOf st) (oid x)"
      using pv' fx cb Some root1 dp1 rt s2(3,6)
      by (simp add: absOf_def avisit_def finish_def Let_def split: nref.splits)
    have I: "INV ?st'"
      using s2(3,5,9,10) fr1 pos2x fid
      by (auto simp: INV_def finish_def POS_def)
    have O: "\<forall>a f l tail. POS st a f l tail \<and> CL st a f \<and> ((a = nodes) = (f = fid)) \<and>
               set (labelsOf tail) \<inter> (insert (oid x) (touched st) \<union> alab nodes) = {}
               \<longrightarrow> POS ?st' a f l tail"
      unfolding posf using pos2 by blast
    have F: "nframe ?st' = nframe st" "prevInsertAfter ?st' = Some (nodes, ivar ?st' fid, fid)"
      "prevNode ?st' = ObjRef (oid x)"
      using s2(5) by (simp_all add: finish_def)
    show ?thesis using v a I O F by blast
  qed
qed

lemma newFrame_fields [simp]:
  "root (newFrame st) = root st" "nframe (newFrame st) = Suc (nframe st)"
  "nlabel (newFrame st) = nlabel st" "prevNode (newFrame st) = prevNode st"
  "prevInsertAfter (newFrame st) = prevInsertAfter st"
  "dummyPrev (newFrame st) = dummyPrev st"
  "ivar (newFrame st) = (ivar st)(nframe st := 0)"
  by (simp_all add: newFrame_def)

lemma absOf_frames [simp]: "absOf (incr f st) = absOf st" "absOf (newFrame st) = absOf st"
  by (simp_all add: absOf_def)

lemma touched_frames [simp]: "touched (incr f st) = touched st" "touched (newFrame st) = touched st"
  by (simp_all add: touched_def)

lemma INV_incr [simp]: "INV (incr f st) = INV st"
  by (simp add: INV_def split: option.splits)

lemma INV_newFrame: "INV st \<Longrightarrow> INV (newFrame st)"
  by (auto simp: INV_def split: option.splits)

lemma POS_incr: "f \<noteq> f' \<Longrightarrow> POS (incr f' st) a f l tail = POS st a f l tail"
  by (simp add: POS_def)

lemma POS_newFrame: "f \<noteq> nframe st \<Longrightarrow> POS (newFrame st) a f l tail = POS st a f l tail"
  by (simp add: POS_def)

lemma CL_incr: "CL st a f \<Longrightarrow> CL (incr f' st) a f"
  by (auto simp: CL_def less_Suc_eq)

lemma CL_newFrame: "f \<noteq> nframe st \<Longrightarrow> CL (newFrame st) a f = CL st a f"
  by (simp add: CL_def)

lemma traverseLoop_end:
  "getArr st nodes = Some arr \<Longrightarrow> \<not> ivar st fid < length arr \<Longrightarrow>
     traverseLoop cb st nodes fid = Some st"
  by (subst traverseLoop.simps) simp

lemma traverseLoop_group:
  "getArr st nodes = Some arr \<Longrightarrow> ivar st fid < length arr \<Longrightarrow>
   checkPartialGroup (onode (arr ! ivar st fid)) \<Longrightarrow>
     traverseLoop cb st nodes fid =
       Option.bind (traverseLoop cb (newFrame st) (ChildrenOf (oid (arr ! ivar st fid))) (nframe st))
         (\<lambda>st1. traverseLoop cb (incr fid st1) nodes fid)"
  by (subst traverseLoop.simps) simp

lemma traverseLoop_space:
  "getArr st nodes = Some arr \<Longrightarrow> ivar st fid < length arr \<Longrightarrow>
   \<not> checkPartialGroup (onode (arr ! ivar st fid)) \<Longrightarrow>
   class0 (onode (arr ! ivar st fid)) = Some ''mspace'' \<Longrightarrow>
     traverseLoop cb st nodes fid = traverseLoop cb (incr fid st) nodes fid"
  by (subst traverseLoop.simps) simp

lemma traverseLoop_atom:
  "getArr st nodes = Some arr \<Longrightarrow> ivar st fid < length arr \<Longrightarrow>
   \<not> checkPartialGroup (onode (arr ! ivar st fid)) \<Longrightarrow>
   class0 (onode (arr ! ivar st fid)) \<noteq> Some ''mspace'' \<Longrightarrow>
     traverseLoop cb st nodes fid =
       (case visit cb st nodes fid (arr ! ivar st fid) of
          None \<Rightarrow> None
        | Some st3 \<Rightarrow> traverseLoop cb (incr fid st3) nodes fid)"
  by (subst traverseLoop.simps) simp

lemma labelsOf_drop_distinct: "distinct (labelsOf xs) \<Longrightarrow> distinct (labelsOf (drop k xs))"
  by (metis append_take_drop_id distinct_append labelsOf_append)

lemma loop_sim:
  fixes st :: "('n, 'o) tstate"
  assumes "INV st" "arrOf (root st) nodes = Some arr" "drop (ivar st fid) arr = rest"
    "CL st nodes fid" "fid < nframe st" "set (labelsOf rest) \<inter> touched st = {}"
  shows "\<exists>st'. traverseLoop cb st nodes fid = Some st' \<and>
           absOf st' = foldl (avisit cb) (absOf st) (atomsL rest) \<and> INV st' \<and>
           nframe st \<le> nframe st' \<and>
           touched st' \<subseteq> touched st \<union> alab nodes \<union> set (labelsOf rest) \<and>
           (\<forall>a f l tail. OBS st nodes fid rest a f l tail
              \<longrightarrow> POS st' a f l tail \<and> CL st' a f)"
  using assms
proof (induction rest arbitrary: st nodes fid arr rule: atomsL.induct)
  case 1
  then have "\<not> ivar st fid < length arr" by simp
  then have "traverseLoop cb st nodes fid = Some st"
    using 1(2) by (intro traverseLoop_end [of _ _ arr]) (simp_all add: getArr_arrOf)
  then show ?case using 1(1) by (simp add: OBS_def)
next
  case (2 l n ks xs)
  let ?i = "ivar st fid"
  note inv = \<open>INV st\<close> and arr = \<open>arrOf (root st) nodes = Some arr\<close>
    and rest = \<open>drop ?i arr = Obj l n ks # xs\<close> and cl = \<open>CL st nodes fid\<close>
    and fid = \<open>fid < nframe st\<close>
    and dj = \<open>set (labelsOf (Obj l n ks # xs)) \<inter> touched st = {}\<close>
  have i: "?i < length arr" using rest by (cases "?i < length arr") auto
  have x: "arr ! ?i = Obj l n ks" and tl: "drop (Suc ?i) arr = xs"
    using rest i by (simp_all add: Cons_nth_drop_Suc [symmetric])
  have ga: "getArr st nodes = Some arr" using arr by (simp add: getArr_arrOf)
  have d: "distinct (labelsOf (root st))" using inv by (simp add: INV_def)
  have da: "distinct (labelsOf arr)" and aa: "alab nodes \<inter> set (labelsOf arr) = {}"
    using arrOf_distinct [OF arr d] by simp_all
  have dr: "distinct (l # labelsOf ks @ labelsOf xs)"
    using labelsOf_drop_distinct [OF da, of ?i] rest by simp
  have rsub: "set (l # labelsOf ks @ labelsOf xs) \<subseteq> set (labelsOf arr)"
    using labelsOf_take_drop(2) [of ?i arr] rest by simp
  have an: "alab nodes \<inter> set (l # labelsOf ks @ labelsOf xs) = {}"
    using aa rsub by auto
  have pos0: "POS st nodes fid l xs" using arr i x tl by (simp add: POS_def)
  show ?case
  proof (cases "checkPartialGroup n")
    case True
    let ?sn = "newFrame st"
    have fl: "findObj l (root st) = Some (Obj l n ks)"
      using arrOf_find [OF d arr, of "arr ! ?i"] i x nth_mem [OF i] by simp
    have p1: "INV ?sn" using inv by (rule INV_newFrame)
    have p2: "arrOf (root ?sn) (ChildrenOf l) = Some ks" using fl by (simp add: arrOf_def)
    have p3: "drop (ivar ?sn (nframe st)) ks = ks" by simp
    have p4: "CL ?sn (ChildrenOf l) (nframe st)"
    proof -
      have "f' \<noteq> nframe st \<and> a' \<noteq> ChildrenOf l"
        if "prevInsertAfter st = Some (a', idx, f')" for a' idx f'
        using that inv dj by (auto simp: INV_def touched_def alab_def)
      then show ?thesis by (auto simp: CL_def)
    qed
    have p5: "nframe st < nframe ?sn" by simp
    have p6: "set (labelsOf ks) \<inter> touched ?sn = {}" using dj by auto
    from "2.IH"(1) [OF True p1 p2 p3 p4 p5 p6] obtain st1 where
      l1: "traverseLoop cb ?sn (ChildrenOf l) (nframe st) = Some st1"
      and a1: "absOf st1 = foldl (avisit cb) (absOf st) (atomsL ks)"
      and i1: "INV st1" and n1: "nframe ?sn \<le> nframe st1"
      and t1: "touched st1 \<subseteq> touched ?sn \<union> alab (ChildrenOf l) \<union> set (labelsOf ks)"
      and o1: "\<And>a f l' tail. OBS ?sn (ChildrenOf l) (nframe st) ks a f l' tail
                 \<Longrightarrow> POS st1 a f l' tail \<and> CL st1 a f"
      by auto
    have t1': "touched st1 \<subseteq> touched st \<union> insert l (set (labelsOf ks))"
      using t1 by (auto simp: alab_def)
    have "OBS ?sn (ChildrenOf l) (nframe st) ks nodes fid l xs"
      unfolding OBS_def using pos0 cl fid an dr dj
      by (auto simp: POS_newFrame CL_newFrame alab_def)
    from o1 [OF this] have pos1: "POS st1 nodes fid l xs" and cl1: "CL st1 nodes fid" by auto
    let ?sm = "incr fid st1"
    from pos1 obtain arr1 where q2: "arrOf (root ?sm) nodes = Some arr1"
      and q3: "drop (ivar ?sm fid) arr1 = xs"
      by (auto simp: POS_def)
    have q1: "INV ?sm" using i1 by simp
    have q4: "CL ?sm nodes fid" using cl1 by (rule CL_incr)
    have q5: "fid < nframe ?sm" using fid n1 by simp
    have q6: "set (labelsOf xs) \<inter> touched ?sm = {}" using t1' dj dr by auto
    from "2.IH"(2) [OF True q1 q2 q3 q4 q5 q6] obtain st' where
      l2: "traverseLoop cb ?sm nodes fid = Some st'"
      and a2: "absOf st' = foldl (avisit cb) (absOf st1) (atomsL xs)"
      and i2: "INV st'" and n2: "nframe ?sm \<le> nframe st'"
      and t2: "touched st' \<subseteq> touched ?sm \<union> alab nodes \<union> set (labelsOf xs)"
      and o2: "\<And>a f l' tail. OBS ?sm nodes fid xs a f l' tail
                 \<Longrightarrow> POS st' a f l' tail \<and> CL st' a f"
      by auto
    have L: "traverseLoop cb st nodes fid = Some st'"
      using traverseLoop_group [OF ga i, of cb] True x l1 l2 by simp
    have A: "absOf st' = foldl (avisit cb) (absOf st) (atomsL (Obj l n ks # xs))"
      using a1 a2 True by simp
    have N: "nframe st \<le> nframe st'" using n1 n2 by simp
    have T: "touched st' \<subseteq> touched st \<union> alab nodes \<union> set (labelsOf (Obj l n ks # xs))"
      using t2 t1' by auto
    have O: "POS st' a f l' tail \<and> CL st' a f"
      if ob: "OBS st nodes fid (Obj l n ks # xs) a f l' tail" for a f l' tail
    proof -
      have "OBS ?sn (ChildrenOf l) (nframe st) ks a f l' tail"
        using ob unfolding OBS_def
        by (auto simp: POS_newFrame CL_newFrame alab_def)
      from o1 [OF this] have "POS st1 a f l' tail" "CL st1 a f" by auto
      then have "OBS ?sm nodes fid xs a f l' tail"
        using ob t1' n1 unfolding OBS_def
        by (auto simp: POS_incr CL_incr)
      from o2 [OF this] show ?thesis .
    qed
    show ?thesis using L A i2 N T O by blast
  next
    case False
    note np = False
    show ?thesis
    proof (cases "class0 n = Some ''mspace''")
      case True
      let ?sm = "incr fid st"
      have q1: "INV ?sm" using inv by simp
      have q2: "arrOf (root ?sm) nodes = Some arr" using arr by simp
      have q3: "drop (ivar ?sm fid) arr = xs" using tl by simp
      have q4: "CL ?sm nodes fid" using cl by (rule CL_incr)
      have q5: "fid < nframe ?sm" using fid by simp
      have q6: "set (labelsOf xs) \<inter> touched ?sm = {}" using dj by auto
      from "2.IH"(3) [OF np True q1 q2 q3 q4 q5 q6] obtain st' where
        l2: "traverseLoop cb ?sm nodes fid = Some st'"
        and a2: "absOf st' = foldl (avisit cb) (absOf st) (atomsL xs)"
        and i2: "INV st'" and n2: "nframe ?sm \<le> nframe st'"
        and t2: "touched st' \<subseteq> touched ?sm \<union> alab nodes \<union> set (labelsOf xs)"
        and o2: "\<And>a f l' tail. OBS ?sm nodes fid xs a f l' tail
                   \<Longrightarrow> POS st' a f l' tail \<and> CL st' a f"
        by auto
      have L: "traverseLoop cb st nodes fid = Some st'"
        using traverseLoop_space [OF ga i, of cb] np True x l2 by simp
      have A: "absOf st' = foldl (avisit cb) (absOf st) (atomsL (Obj l n ks # xs))"
        using a2 np True by simp
      have N: "nframe st \<le> nframe st'" using n2 by simp
      have T: "touched st' \<subseteq> touched st \<union> alab nodes \<union> set (labelsOf (Obj l n ks # xs))"
        using t2 by auto
      have O: "POS st' a f l' tail \<and> CL st' a f"
        if ob: "OBS st nodes fid (Obj l n ks # xs) a f l' tail" for a f l' tail
      proof -
        have "OBS ?sm nodes fid xs a f l' tail"
          using ob unfolding OBS_def by (auto simp: POS_incr CL_incr)
        from o2 [OF this] show ?thesis .
      qed
      show ?thesis using L A i2 N T O by blast
    next
      case False
      have djr: "set (labelsOf (drop ?i arr)) \<inter> touched st = {}" using dj rest by simp
      from visit_step [OF inv arr i cl fid djr refl, of cb] x obtain st3 where
        v: "visit cb st nodes fid (arr ! ?i) = Some st3"
        and a3: "absOf st3 = avisit cb (absOf st) l"
        and i3: "INV st3" and n3: "nframe st3 = nframe st"
        and c3: "prevInsertAfter st3 = Some (nodes, ivar st3 fid, fid)"
        and r3: "prevNode st3 = ObjRef l"
        and o3: "\<And>a f l' tail. POS st a f l' tail \<Longrightarrow> CL st a f \<Longrightarrow> (a = nodes) = (f = fid) \<Longrightarrow>
               set (labelsOf tail) \<inter> (insert l (touched st) \<union> alab nodes) = {}
               \<Longrightarrow> POS st3 a f l' tail"
        by auto
      have t3: "touched st3 = insert l (alab nodes)" using c3 r3 by (simp add: touched_def)
      have "set (labelsOf xs) \<inter> (insert l (touched st) \<union> alab nodes) = {}"
        using dr dj an by auto
      from o3 [OF pos0 cl _ this] have pos3: "POS st3 nodes fid l xs" by simp
      let ?sm = "incr fid st3"
      from pos3 obtain arr3 where q2: "arrOf (root ?sm) nodes = Some arr3"
        and q3: "drop (ivar ?sm fid) arr3 = xs"
        by (auto simp: POS_def)
      have q1: "INV ?sm" using i3 by simp
      have q4: "CL ?sm nodes fid" using c3 by (simp add: CL_def)
      have q5: "fid < nframe ?sm" using fid n3 by simp
      have q6: "set (labelsOf xs) \<inter> touched ?sm = {}" using t3 dr an by auto
      from "2.IH"(4) [OF np False q1 q2 q3 q4 q5 q6] obtain st' where
        l2: "traverseLoop cb ?sm nodes fid = Some st'"
        and a2: "absOf st' = foldl (avisit cb) (absOf st3) (atomsL xs)"
        and i2: "INV st'" and n2: "nframe ?sm \<le> nframe st'"
        and t2: "touched st' \<subseteq> touched ?sm \<union> alab nodes \<union> set (labelsOf xs)"
        and o2: "\<And>a f l' tail. OBS ?sm nodes fid xs a f l' tail
                   \<Longrightarrow> POS st' a f l' tail \<and> CL st' a f"
        by auto
      have L: "traverseLoop cb st nodes fid = Some st'"
        using traverseLoop_atom [OF ga i, of cb] np False x v l2 by simp
      have A: "absOf st' = foldl (avisit cb) (absOf st) (atomsL (Obj l n ks # xs))"
        using a2 a3 np False by simp
      have N: "nframe st \<le> nframe st'" using n2 n3 by simp
      have T: "touched st' \<subseteq> touched st \<union> alab nodes \<union> set (labelsOf (Obj l n ks # xs))"
        using t2 t3 by auto
      have O: "POS st' a f l' tail \<and> CL st' a f"
        if ob: "OBS st nodes fid (Obj l n ks # xs) a f l' tail" for a f l' tail
      proof -
        have "POS st3 a f l' tail"
          using ob unfolding OBS_def by (intro o3) auto
        then have "OBS ?sm nodes fid xs a f l' tail"
          using ob t3 n3 c3 unfolding OBS_def
          by (auto simp: POS_incr CL_def)
        from o2 [OF this] show ?thesis .
      qed
      show ?thesis using L A i2 N T O by blast
    qed
  qed
qed

lemma traverse_top:
  fixes st :: "('n, 'o) tstate"
  assumes d: "distinct (labelsOf (root st @ [nx]))"
    and fr: "\<forall>l \<in> set (labelsOf (root st @ [nx])). l < nlabel st"
    and pn: "prevNode st = DummyPrev" and pi: "prevInsertAfter st = None"
    and A: "foldl (avisit cb) (root st @ [nx], dummyPrev st, DummyPrev, nlabel st)
              (atomsL (root st @ [nx])) = (R', dp', pr', nl')"
  shows "\<exists>st2. traverseNonSpaceNodes cb st TopArray (Some nx)
                  = Some (st2, if R' = [] then None else Some (last R')) \<and>
           root st2 = butlast R' \<and> dummyPrev st2 = dp' \<and> nlabel st2 = nl' \<and>
           ivar st2 = ivar st2 \<and>
           distinct (labelsOf R') \<and> (\<forall>l \<in> set (labelsOf R'). l < nl')"
proof -
  define st1 where "st1 = putArr TopArray (root st @ [nx]) st"
  let ?sn = "newFrame st1"
  have r1: "root st1 = root st @ [nx]" by (simp add: st1_def putArr_def)
  have f1: "dummyPrev st1 = dummyPrev st" "nlabel st1 = nlabel st" "prevNode st1 = DummyPrev"
    "prevInsertAfter st1 = None"
    using pn pi by (simp_all add: st1_def)
  have p1: "INV ?sn" using d fr r1 f1 by (simp add: INV_def)
  have p2: "arrOf (root ?sn) TopArray = Some (root st @ [nx])" using r1 by (simp add: arrOf_def)
  have p3: "drop (ivar ?sn (nframe st1)) (root st @ [nx]) = root st @ [nx]" by simp
  have p4: "CL ?sn TopArray (nframe st1)" using f1 by (simp add: CL_def)
  have p5: "nframe st1 < nframe ?sn" by simp
  have p6: "set (labelsOf (root st @ [nx])) \<inter> touched ?sn = {}"
    using f1 by (simp add: touched_def)
  have a0: "absOf ?sn = (root st @ [nx], dummyPrev st, DummyPrev, nlabel st)"
    using r1 f1 by (simp add: absOf_def)
  from loop_sim [OF p1 p2 p3 p4 p5 p6, of cb] obtain st' where
    l: "traverseLoop cb ?sn TopArray (nframe st1) = Some st'"
    and a: "absOf st' = (R', dp', pr', nl')" and i: "INV st'"
    unfolding a0 A by blast
  have "getArr st TopArray = Some (root st)" by (simp add: getArr_def)
  then have "traverseNonSpaceNodes cb st TopArray (Some nx)
      = Some (putArr TopArray (butlast (root st')) st',
              if root st' = [] then None else Some (last (root st')))"
    using l by (simp add: traverseNonSpaceNodes_def st1_def [symmetric] getArr_def)
  moreover have "root st' = R'" "dummyPrev st' = dp'" "nlabel st' = nl'"
    using a by (simp_all add: absOf_def)
  moreover have "root (putArr TopArray ks st') = ks" for ks by (simp add: putArr_def)
  ultimately show ?thesis using i by (auto simp: INV_def)
qed

lemma atomsLV_fst: "map fst (atomsLV F) = atomsL F"
  by (induction F rule: atomsLV.induct) auto

lemma checkPartialGroup_Node:
  "checkPartialGroup (Node f cs) = (kind f = DocumentFragment \<or> kind f = Anchor)"
  by (simp add: checkPartialGroup_def)

lemma class0_Node: "class0 (Node f cs) = (case classes f of [] \<Rightarrow> None | c # _ \<Rightarrow> Some c)"
  by (simp add: class0_def)

lemma ofObj_group: "checkPartialGroup n \<Longrightarrow> ofObj (Obj l n ks) = Node (fld n) (map ofObj ks)"
  by (simp add: setChildren_def)

lemma ofObj_leaf: "\<not> checkPartialGroup n \<Longrightarrow> ofObj (Obj l n ks) = n"
  by simp

lemma Node_fld [simp]:
  "checkPartialGroup (Node (fld n) cs) = checkPartialGroup n"
  "class0 (Node (fld n) cs) = class0 n"
  by (simp_all add: checkPartialGroup_def class0_def)

lemma nonSpace_Cons:
  "nonSpace (n # ns) =
     (if checkPartialGroup n then nonSpace (children n) @ nonSpace ns
      else if class0 n = Some ''mspace'' then nonSpace ns
      else n # nonSpace ns)"
  by (cases n) simp

lemma nonSpace_ofObj: "nonSpace (map ofObj F) = map snd (atomsLV F)"
proof (induction F rule: atomsLV.induct)
  case 1
  then show ?case by simp
next
  case (2 l n ks xs)
  show ?case
  proof (cases "checkPartialGroup n")
    case True
    then show ?thesis using 2 by (simp add: nonSpace_Cons ofObj_group del: ofObj.simps)
  next
    case False
    then show ?thesis using 2 by (simp add: nonSpace_Cons ofObj_leaf del: ofObj.simps)
  qed
qed

lemma labelsOf_revalue [simp]: "labelsOf (revalue v R) = labelsOf R"
  by (induction v R rule: revalue.induct) auto

lemma map_oid_revalue [simp]: "map oid (revalue v R) = map oid R"
  by (induction v R rule: revalue.induct) auto

lemma revalue_cong: "(\<And>l. l \<in> set (labelsOf R) \<Longrightarrow> v l = w l) \<Longrightarrow> revalue v R = revalue w R"
  by (induction v R rule: revalue.induct) auto

lemma revalue_revalue [simp]: "revalue v (revalue w R) = revalue v R"
  by (induction w R rule: revalue.induct) auto

lemma setVal_revalue:
  "distinct (labelsOf R) \<Longrightarrow> setVal l n (revalue v R) = revalue (v(l := n)) R"
proof (induction R rule: labelsOf.induct)
  case 1
  then show ?case by simp
next
  case (2 i m ks xs)
  have IH: "setVal l n (revalue v ks) = revalue (v(l := n)) ks"
    "setVal l n (revalue v xs) = revalue (v(l := n)) xs"
    using 2 by (auto simp: fun_upd_def)
  show ?case
  proof (cases "i = l")
    case True
    then have "l \<notin> set (labelsOf ks)" using 2(3) by auto
    then have "revalue (v(l := n)) ks = revalue v ks" by (intro revalue_cong) auto
    then show ?thesis using IH(2) by (simp add: True fun_upd_def)
  next
    case False
    then show ?thesis using IH by (simp add: fun_upd_def)
  qed
qed

lemma findObj_revalue:
  "findObj l (revalue v R) = map_option (\<lambda>y. Obj l (v l) (revalue v (okids y))) (findObj l R)"
  by (induction l R rule: findObj.induct) (auto split: option.splits)

lemma revalue_valOf: "distinct (labelsOf R) \<Longrightarrow> revalue (valOf d R) R = R"
proof (induction R rule: labelsOf.induct)
  case 1
  then show ?case by simp
next
  case (2 i n ks xs)
  have "revalue (valOf d (Obj i n ks # xs)) ks = revalue (valOf d ks) ks"
  proof (rule revalue_cong)
    fix l assume "l \<in> set (labelsOf ks)"
    then have "l \<noteq> i" "findObj l ks \<noteq> None" using 2(3) by (auto simp: findObj_None_iff)
    then show "valOf d (Obj i n ks # xs) l = valOf d ks l" by (auto simp: valOf_def)
  qed
  moreover have "revalue (valOf d (Obj i n ks # xs)) xs = revalue (valOf d xs) xs"
  proof (rule revalue_cong)
    fix l assume "l \<in> set (labelsOf xs)"
    then have "l \<noteq> i" "findObj l ks = None" using 2(3) by (auto simp: findObj_None_iff)
    then show "valOf d (Obj i n ks # xs) l = valOf d xs l" by (auto simp: valOf_def)
  qed
  moreover have "valOf d (Obj i n ks # xs) i = n" by (simp add: valOf_def)
  ultimately show ?case using 2 by simp
qed

lemma labelsOf_insAll_sub:
  "set (labelsOf (insAll M F)) \<subseteq> set (labelsOf F) \<union> {k. \<exists>l g. M l = Some g \<and> k \<in> set (labelsOf [g])}"
  by (induction M F rule: insAll.induct) (auto split: option.splits)

lemma insAll_cong: "(\<And>l. l \<in> set (labelsOf F) \<Longrightarrow> M l = M' l) \<Longrightarrow> insAll M F = insAll M' F"
  by (induction M F rule: insAll.induct) auto

lemma insAll_empty [simp]: "insAll (\<lambda>l. None) F = F"
  by (induction F rule: labelsOf.induct) auto

lemma setVal_insAll:
  assumes "\<And>k g. M k = Some g \<Longrightarrow> okids g = [] \<and> oid g \<noteq> l"
  shows "setVal l n (insAll M F) = insAll M (setVal l n F)"
proof (induction F rule: labelsOf.induct)
  case 1
  then show ?case by simp
next
  case (2 i m ks xs)
  have "setVal l n [g] = [g]" if "M i = Some g" for g
    using assms [OF that] by (cases g) auto
  then show ?case using 2 by (auto split: option.splits)
qed

lemma findObj_insAll:
  assumes "\<And>k g. M k = Some g \<Longrightarrow> okids g = [] \<and> oid g \<noteq> l"
  shows "findObj l (insAll M F)
           = map_option (\<lambda>y. Obj (oid y) (onode y) (insAll M (okids y))) (findObj l F)"
proof (induction F rule: labelsOf.induct)
  case 1
  then show ?case by simp
next
  case (2 i m ks xs)
  have "findObj l (g # zs) = findObj l zs" if "M i = Some g" for g zs
    using assms [OF that] by (cases g) auto
  then show ?case using 2 by (auto simp: findObj_append split: option.splits)
qed

lemma insAfter_insAll:
  assumes "\<And>k g. M k = Some g \<Longrightarrow> okids g = [] \<and> oid g \<noteq> p"
    and "M p = None"
  shows "distinct (labelsOf F) \<Longrightarrow> insAfter p G (insAll M F) = insAll (M(p \<mapsto> G)) F"
proof (induction F rule: labelsOf.induct)
  case 1
  then show ?case by simp
next
  case (2 i m ks xs)
  have g: "insAfter p G (g # zs) = g # insAfter p G zs" if "M i = Some g" for g zs
    using assms(1) [OF that] by (cases g) auto
  show ?case
  proof (cases "i = p")
    case True
    then have "p \<notin> set (labelsOf ks)" "p \<notin> set (labelsOf xs)" using 2(3) by auto
    then have "insAll (M(p \<mapsto> G)) ks = insAll M ks" "insAll (M(p \<mapsto> G)) xs = insAll M xs"
      by (auto intro!: insAll_cong)
    then show ?thesis using assms(2) by (simp add: True fun_upd_def)
  next
    case False
    have "insAfter p G (insAll M ks) = insAll (M(p \<mapsto> G)) ks"
      "insAfter p G (insAll M xs) = insAll (M(p \<mapsto> G)) xs"
      using 2 by (auto simp: fun_upd_def)
    then show ?thesis using False g by (cases "M i") (simp_all add: fun_upd_def)
  qed
qed

lemma T_find:
  assumes "GL M R" "l \<in> set (labelsOf R)"
  shows "\<exists>y. findObj l (insAll M (revalue v R)) = Some y \<and> onode y = v l"
proof -
  have "findObj l (insAll M (revalue v R))
          = map_option (\<lambda>y. Obj (oid y) (onode y) (insAll M (okids y))) (findObj l (revalue v R))"
    using assms by (intro findObj_insAll) (auto simp: GL_def)
  moreover obtain z where "findObj l R = Some z"
    using assms(2) findObj_None_iff [of l R] by auto
  ultimately show ?thesis by (simp add: findObj_revalue)
qed

lemma T_setVal:
  assumes "GL M R" "l \<in> set (labelsOf R)" "distinct (labelsOf R)"
  shows "setVal l n (insAll M (revalue v R)) = insAll M (revalue (v(l := n)) R)"
proof -
  have "setVal l n (insAll M (revalue v R)) = insAll M (setVal l n (revalue v R))"
    using assms by (intro setVal_insAll) (auto simp: GL_def)
  then show ?thesis using assms(3) by (simp add: setVal_revalue)
qed

lemma T_insAfter:
  assumes "GL M R" "p \<in> set (labelsOf R)" "distinct (labelsOf R)" "M p = None"
  shows "insAfter p G (insAll M (revalue v R)) = insAll (M(p \<mapsto> G)) (revalue v R)"
  using assms by (intro insAfter_insAll) (auto simp: GL_def)

lemma T_step:
  assumes gl: "GL M R" and d: "distinct (labelsOf R)"
    and p: "p \<in> set (labelsOf R)" and x: "x \<in> set (labelsOf R)" and mp: "M p = None"
    and cb: "cb (v x) (v p) = (n', p', r)"
  shows "avisit cb (insAll M (revalue v R), dp, ObjRef p, nl) x
           = (insAll (case r of None \<Rightarrow> M | Some g \<Rightarrow> M(p \<mapsto> Obj nl g []))
                (revalue (v(p := p', x := n')) R),
              dp, ObjRef x, (case r of None \<Rightarrow> nl | Some g \<Rightarrow> Suc nl))"
proof -
  let ?T = "insAll M (revalue v R)"
  obtain py where py: "findObj p ?T = Some py" "onode py = v p"
    using T_find [OF gl p] by blast
  obtain xy where xy: "findObj x ?T = Some xy" "onode xy = v x"
    using T_find [OF gl x] by blast
  have s1: "setVal p p' ?T = insAll M (revalue (v(p := p')) R)"
    by (rule T_setVal [OF gl p d])
  have s2: "setVal x n' (insAll M (revalue (v(p := p')) R))
              = insAll M (revalue (v(p := p', x := n')) R)"
    by (rule T_setVal [OF gl x d])
  have s3: "insAfter p G (insAll M (revalue (v(p := p', x := n')) R))
              = insAll (M(p \<mapsto> G)) (revalue (v(p := p', x := n')) R)" for G
    by (rule T_insAfter [OF gl p d mp])
  show ?thesis
    using py xy cb s1 s2 s3
    by (cases r) (simp_all add: avisit_def Let_def)
qed

lemma T_fold:
  fixes R :: "('n, 'o) obj list"
  assumes d: "distinct (labelsOf R)"
  shows "GL M R \<Longrightarrow> \<forall>l \<in> set (labelsOf R). l < nl \<Longrightarrow> p \<in> set (labelsOf R) \<Longrightarrow>
         fst ` set ys \<subseteq> set (labelsOf R) \<Longrightarrow> distinct (p # map fst ys) \<Longrightarrow>
         \<forall>z \<in> set (p # map fst ys). M z = None \<Longrightarrow> \<forall>(y, yv) \<in> set ys. v y = yv \<Longrightarrow>
         \<exists>v' M' pr' nl'.
           foldl (avisit cb) (insAll M (revalue v R), dp, ObjRef p, nl) (map fst ys)
             = (insAll M' (revalue v' R), dp, pr', nl') \<and>
           okrP cb v' M' p (v p) ys None \<and> GL M' R \<and>
           (\<forall>l. l \<notin> set (p # map fst ys) \<longrightarrow> v' l = v l \<and> M' l = M l)"
proof (induction ys arbitrary: M nl p v)
  case Nil
  then show ?case by auto
next
  case (Cons a ys)
  obtain y yv where a: "a = (y, yv)" by (cases a)
  obtain n' p' r where cb: "cb (v y) (v p) = (n', p', r)" by (cases "cb (v y) (v p)")
  have vy: "v y = yv" using Cons.prems(7) a by auto
  have yR: "y \<in> set (labelsOf R)" using Cons.prems(4) a by auto
  have py: "p \<noteq> y" "p \<notin> fst ` set ys" "y \<notin> fst ` set ys" using Cons.prems(5) a by auto
  define M1 where "M1 = (case r of None \<Rightarrow> M | Some g \<Rightarrow> M(p \<mapsto> Obj nl g []))"
  define nl1 where "nl1 = (case r of None \<Rightarrow> nl | Some g \<Rightarrow> Suc nl)"
  define v1 where "v1 = v(p := p', y := n')"
  have mp: "M p = None" using Cons.prems(6) by simp
  have step: "avisit cb (insAll M (revalue v R), dp, ObjRef p, nl) y
                = (insAll M1 (revalue v1 R), dp, ObjRef y, nl1)"
    unfolding M1_def nl1_def v1_def
    using Cons.prems(1) d Cons.prems(3) yR mp cb
    by (rule T_step [where cb = cb and v = v and M = M and p = p and x = y])
  have q1: "GL M1 R"
    using Cons.prems(1,2) by (auto simp: GL_def M1_def split: option.splits)
  have q2: "\<forall>l \<in> set (labelsOf R). l < nl1"
    using Cons.prems(2) by (auto simp: nl1_def split: option.splits)
  have q4: "fst ` set ys \<subseteq> set (labelsOf R)" using Cons.prems(4) by auto
  have q5: "distinct (y # map fst ys)" using Cons.prems(5) a by auto
  have q6: "\<forall>z \<in> set (y # map fst ys). M1 z = None"
    using Cons.prems(6) py a by (auto simp: M1_def split: option.splits)
  have q7: "\<forall>(z, zv) \<in> set ys. v1 z = zv"
  proof (clarify)
    fix z zv assume m: "(z, zv) \<in> set ys"
    then have "z \<in> fst ` set ys" by force
    then have "z \<noteq> p" "z \<noteq> y" using py by auto
    moreover have "v z = zv" using Cons.prems(7) m by auto
    ultimately show "v1 z = zv" by (simp add: v1_def)
  qed
  from Cons.IH [OF q1 q2 yR q4 q5 q6 q7] obtain v' M' pr' nl' where
    f: "foldl (avisit cb) (insAll M1 (revalue v1 R), dp, ObjRef y, nl1) (map fst ys)
          = (insAll M' (revalue v' R), dp, pr', nl')"
    and o: "okrP cb v' M' y (v1 y) ys None" and g: "GL M' R"
    and fr: "\<forall>l. l \<notin> set (y # map fst ys) \<longrightarrow> v' l = v1 l \<and> M' l = M1 l"
    by blast
  have "v' p = p'" "M' p = M1 p" using fr py by (auto simp: v1_def)
  moreover have "glueIs (M1 p) r" using mp by (auto simp: glueIs_def M1_def split: option.splits)
  moreover have "v1 y = n'" by (simp add: v1_def)
  ultimately have O: "okrP cb v' M' p (v p) (a # ys) None"
    using o cb vy a by simp
  have F: "\<forall>l. l \<notin> set (p # map fst (a # ys)) \<longrightarrow> v' l = v l \<and> M' l = M l"
    using fr a by (auto simp: v1_def M1_def split: option.splits)
  have "foldl (avisit cb) (insAll M (revalue v R), dp, ObjRef p, nl) (map fst (a # ys))
          = (insAll M' (revalue v' R), dp, pr', nl')"
    using step f a by simp
  then show ?case using O g F by blast
qed

lemma okrP_append:
  "okrP cb v' M' p q (as @ bs) nxt
     = (okrP cb v' M' p q as (nextv bs nxt) \<and>
        okr cb v' M' (foldl (own cb) q (map snd as)) bs nxt)"
proof (induction as arbitrary: p q)
  case Nil
  show ?case
  proof (cases bs)
    case Nil
    then show ?thesis by (simp add: nextv_def okr_def)
  next
    case (Cons b bs')
    then show ?thesis
      by (cases b) (auto simp: nextv_def okr_def own_def split: prod.splits)
  qed
next
  case (Cons a as)
  then show ?case by (cases a) (auto simp: own_def split: prod.splits)
qed

lemma okr_append:
  "okr cb v' M' q (as @ bs) nxt
     = (okr cb v' M' q as (nextv bs nxt) \<and>
        okr cb v' M' (foldl (own cb) q (map snd as)) bs nxt)"
proof (cases as)
  case Nil
  then show ?thesis by (simp add: okr_def)
next
  case (Cons a as')
  then show ?thesis by (cases a) (simp add: okr_def okrP_append)
qed

lemma okrP_head:
  assumes "okrP cb v' M' l n1 ys nxt" "good cb"
  shows "v' l # map ofObj (case M' l of None \<Rightarrow> [] | Some g \<Rightarrow> [g]) = after cb n1 (nextv ys nxt) \<and>
         okr cb v' M' n1 ys nxt"
proof -
  have g: "map ofObj (case M' l of None \<Rightarrow> [] | Some g \<Rightarrow> [g]) = (case r of None \<Rightarrow> [] | Some g \<Rightarrow> [g])"
    if "glueIs (M' l) r" "cb b n1 = (m1, p2, r)" for r b m1 p2
    using that assms(2) unfolding good_def glueIs_def
    by (cases r) auto
  show ?thesis
  proof (cases ys)
    case Nil
    then show ?thesis
      using assms(1) g
      by (cases nxt) (auto simp: after_def nextv_def okr_def split: prod.splits)
  next
    case (Cons y ys')
    then show ?thesis
      using assms(1) g
      by (cases y) (auto simp: after_def nextv_def okr_def own_def split: prod.splits)
  qed
qed

lemma after_hd_leaf:
  assumes "good cb" "\<not> checkPartialGroup n1"
  shows "\<not> checkPartialGroup (hd (after cb n1 nx))"
proof (cases nx)
  case None
  then show ?thesis using assms(2) by (simp add: after_def)
next
  case (Some b)
  obtain x y z where c: "cb b n1 = (x, y, z)" by (cases "cb b n1")
  then have "\<not> checkPartialGroup y" using assms unfolding good_def by blast
  then show ?thesis using Some c by (simp add: after_def)
qed

lemma nextOf_ofObj: "nextOf (map ofObj xs) nxt = nextv (atomsLV xs) nxt"
  by (cases "atomsLV xs") (auto simp: nextOf_def nextv_def nonSpace_ofObj)

lemma travN_Cons:
  "travN cb p (n # ns) nx =
     (if checkPartialGroup n then
        Node (fld n) (travN cb p (children n) (nextOf ns nx))
          # travN cb (foldl (own cb) p (nonSpace (children n))) ns nx
      else if class0 n = Some ''mspace'' then n # travN cb p ns nx
      else after cb (own cb p n) (nextOf ns nx) @ travN cb (own cb p n) ns nx)"
  by (cases n) simp

lemma atomsL_sub: "set (atomsL F) \<subseteq> set (labelsOf F)"
  by (induction F rule: atomsL.induct) auto

lemma ofObj_T:
  assumes g: "good cb"
  shows "distinct (labelsOf F) \<Longrightarrow> revalue v0 F = F \<Longrightarrow>
         \<forall>l \<in> set (labelsOf F) - set (atomsL F). v' l = v0 l \<and> M' l = None \<Longrightarrow>
         okr cb v' M' q (atomsLV F) nxt \<Longrightarrow>
         map ofObj (insAll M' (revalue v' F)) = travN cb q (map ofObj F) nxt"
proof (induction F arbitrary: q nxt rule: atomsL.induct)
  case 1
  then show ?case by simp
next
  case (2 l n ks xs)
  have dk: "distinct (labelsOf ks)" and dx: "distinct (labelsOf xs)"
    and rk: "revalue v0 ks = ks" and rx: "revalue v0 xs = xs" and vl: "v0 l = n"
    using "2.prems"(1,2) by auto
  have lk: "l \<notin> set (labelsOf ks)" "l \<notin> set (labelsOf xs)"
    and kx: "set (labelsOf ks) \<inter> set (labelsOf xs) = {}"
    using "2.prems"(1) by auto
  note ak = atomsL_sub [of ks] and ax = atomsL_sub [of xs]
  show ?case
  proof (cases "checkPartialGroup n")
    case True
    have la: "l \<notin> set (atomsL (Obj l n ks # xs))" using True lk ak ax by auto
    then have v: "v' l = n" "M' l = None" using "2.prems"(3) vl by auto
    have fk: "\<forall>l \<in> set (labelsOf ks) - set (atomsL ks). v' l = v0 l \<and> M' l = None"
      using "2.prems"(3) True kx ax by auto
    have fx: "\<forall>l \<in> set (labelsOf xs) - set (atomsL xs). v' l = v0 l \<and> M' l = None"
      using "2.prems"(3) True kx ak by auto
    have o: "okr cb v' M' q (atomsLV ks) (nextv (atomsLV xs) nxt)"
      "okr cb v' M' (foldl (own cb) q (map snd (atomsLV ks))) (atomsLV xs) nxt"
      using "2.prems"(4) True by (simp_all add: okr_append)
    note IH1 = "2.IH"(1) [OF True dk rk fk o(1)]
    note IH2 = "2.IH"(2) [OF True dx rx fx o(2)]
    show ?thesis
      using True v IH1 IH2
      by (simp add: travN_Cons ofObj_group nextOf_ofObj nonSpace_ofObj del: ofObj.simps)
  next
    case False
    note np = False
    show ?thesis
    proof (cases "class0 n = Some ''mspace''")
      case True
      have la: "l \<notin> set (atomsL (Obj l n ks # xs))" using True np lk ax by auto
      then have v: "v' l = n" "M' l = None" using "2.prems"(3) vl by auto
      have fx: "\<forall>l \<in> set (labelsOf xs) - set (atomsL xs). v' l = v0 l \<and> M' l = None"
        using "2.prems"(3) True np by auto
      have o: "okr cb v' M' q (atomsLV xs) nxt" using "2.prems"(4) True np by simp
      note IH = "2.IH"(3) [OF np True dx rx fx o]
      show ?thesis
        using True np v IH by (simp add: travN_Cons ofObj_leaf del: ofObj.simps)
    next
      case False
      have o: "okrP cb v' M' l (own cb q n) (atomsLV xs) nxt"
        using "2.prems"(4) False np by (simp add: okr_def)
      from okrP_head [OF o g] have
        h: "v' l # map ofObj (case M' l of None \<Rightarrow> [] | Some g \<Rightarrow> [g])
              = after cb (own cb q n) (nextv (atomsLV xs) nxt)"
        and o2: "okr cb v' M' (own cb q n) (atomsLV xs) nxt"
        by auto
      have fx: "\<forall>l \<in> set (labelsOf xs) - set (atomsL xs). v' l = v0 l \<and> M' l = None"
        using "2.prems"(3) False np lk by auto
      note IH = "2.IH"(4) [OF np False dx rx fx o2]
      have npv: "\<not> checkPartialGroup (v' l)"
      proof -
        have 1: "\<not> checkPartialGroup (own cb q n)"
          using g np unfolding good_def own_def by (metis prod.collapse)
        have "v' l = hd (after cb (own cb q n) (nextv (atomsLV xs) nxt))"
          using h by (metis list.sel(1))
        then show ?thesis using after_hd_leaf [OF g 1] by simp
      qed
      have "map ofObj (insAll M' (revalue v' (Obj l n ks # xs)))
              = (v' l # map ofObj (case M' l of None \<Rightarrow> [] | Some g \<Rightarrow> [g]))
                  @ map ofObj (insAll M' (revalue v' xs))"
        using npv by (simp add: ofObj_leaf del: ofObj.simps)
      then show ?thesis
        using False np h IH by (simp add: travN_Cons ofObj_leaf nextOf_ofObj del: ofObj.simps)
    qed
  qed
qed

lemma atomsL_distinct: "distinct (labelsOf F) \<Longrightarrow> distinct (atomsL F)"
proof (induction F rule: atomsL.induct)
  case 1
  then show ?case by simp
next
  case (2 l n ks xs)
  then show ?case using atomsL_sub [of ks] atomsL_sub [of xs] by auto
qed

lemma atomsLV_val: "revalue v0 F = F \<Longrightarrow> (l, n) \<in> set (atomsLV F) \<Longrightarrow> v0 l = n"
  by (induction F rule: atomsLV.induct) (auto split: if_splits)

lemma top_notin: "z \<notin> set (labelsOf F) \<Longrightarrow> z \<notin> oid ` set F"
  using oid_in_labelsOf by fastforce

lemma labelsOf_insIn:
  assumes "labelsOf [G] = [g]"
  shows "distinct (labelsOf F) \<Longrightarrow> g \<notin> set (labelsOf F) \<Longrightarrow>
         distinct (labelsOf (insIn x G F)) \<and>
         set (labelsOf F) \<subseteq> set (labelsOf (insIn x G F)) \<and>
         set (labelsOf (insIn x G F)) \<subseteq> insert g (set (labelsOf F))"
proof (induction F rule: labelsOf.induct)
  case 1
  then show ?case by simp
next
  case (2 i n ks xs)
  have G: "labelsOf (G # zs) = g # labelsOf zs" for zs
    using assms labelsOf_single [of G zs] by simp
  have IHk: "distinct (labelsOf (insIn x G ks)) \<and>
         set (labelsOf ks) \<subseteq> set (labelsOf (insIn x G ks)) \<and>
         set (labelsOf (insIn x G ks)) \<subseteq> insert g (set (labelsOf ks))"
    and IHx: "distinct (labelsOf (insIn x G xs)) \<and>
         set (labelsOf xs) \<subseteq> set (labelsOf (insIn x G xs)) \<and>
         set (labelsOf (insIn x G xs)) \<subseteq> insert g (set (labelsOf xs))"
    using 2 by auto
  show ?case
  proof (cases "x \<in> set (labelsOf ks)")
    case True
    then have "x \<notin> set (labelsOf xs)" using 2(3) by auto
    then have "insIn x G xs = xs" by (rule insIn_notin)
    then show ?thesis using 2(3,4) IHk G by auto
  next
    case False
    then have "insIn x G ks = ks" "x \<notin> oid ` set ks"
      by (simp_all add: insIn_notin top_notin)
    then show ?thesis using 2(3,4) IHx by auto
  qed
qed

lemma labelsOf_insFront:
  assumes "distinct (labelsOf F)" "g \<notin> set (labelsOf F)"
  shows "distinct (labelsOf (insFront x (Obj g n []) F)) \<and>
         set (labelsOf F) \<subseteq> set (labelsOf (insFront x (Obj g n []) F)) \<and>
         set (labelsOf (insFront x (Obj g n []) F)) \<subseteq> insert g (set (labelsOf F))"
  using labelsOf_insIn [of "Obj g n []" g F x] assms by (auto simp: insFront_def)

lemma atomsLV_insIn:
  assumes "\<not> checkPartialGroup n" "class0 n = Some ''mspace''"
  shows "atomsLV (insIn x (Obj g n []) F) = atomsLV F"
  using assms by (induction F rule: atomsLV.induct) auto

lemma atomsLV_insFront:
  assumes "\<not> checkPartialGroup n" "class0 n = Some ''mspace''"
  shows "atomsLV (insFront x (Obj g n []) F) = atomsLV F"
  using assms atomsLV_insIn [OF assms] by (simp add: insFront_def)

lemma revalue_insIn:
  "revalue w (insIn x (Obj g n []) F) = insIn x (Obj g (w g) []) (revalue w F)"
proof (induction F rule: labelsOf.induct)
  case 1
  then show ?case by simp
next
  case (2 i m ks xs)
  have "oid ` set (revalue w ks) = oid ` set ks"
    by (metis list.set_map map_oid_revalue)
  then show ?case using 2 by simp
qed

lemma revalue_insFront:
  "revalue w (insFront x (Obj g n []) F) = insFront x (Obj g (w g) []) (revalue w F)"
proof -
  have "oid ` set (revalue w F) = oid ` set F"
    by (metis list.set_map map_oid_revalue)
  then show ?thesis by (simp add: insFront_def revalue_insIn)
qed

lemma holdsFirst_Cons:
  "holdsFirst (n # ns) =
     (if checkPartialGroup n then nonSpace (children n) = [] \<and> holdsFirst ns
      else if class0 n = Some ''mspace'' then holdsFirst ns
      else True)"
  by (cases n) simp

lemma frontIn_Cons:
  "frontIn g (n # ns) =
     (if checkPartialGroup n then
        (if nonSpace (children n) \<noteq> [] then
           Node (fld n) (if holdsFirst (children n) then g # children n else frontIn g (children n)) # ns
         else n # frontIn g ns)
      else if class0 n = Some ''mspace'' then n # frontIn g ns
      else n # ns)"
  by (cases n) simp

lemma atomsL_LV: "atomsL F = [] \<longleftrightarrow> atomsLV F = []"
  by (metis atomsLV_fst map_is_Nil_conv)

lemma holdsFirst_ofObj:
  "atomsL F = x1 # rest \<Longrightarrow> distinct (labelsOf F) \<Longrightarrow>
     holdsFirst (map ofObj F) = (x1 \<in> oid ` set F)"
proof (induction F arbitrary: rest rule: atomsL.induct)
  case 1
  then show ?case by simp
next
  case (2 l n ks xs)
  note ak = atomsL_sub [of ks] and ax = atomsL_sub [of xs]
  show ?case
  proof (cases "checkPartialGroup n")
    case True
    show ?thesis
    proof (cases "atomsL ks")
      case Nil
      then have a: "atomsL xs = x1 # rest" using "2.prems"(1) True by simp
      then have "x1 \<in> set (labelsOf xs)" using ax by auto
      then have "x1 \<noteq> l" using "2.prems"(2) by auto
      moreover have "nonSpace (map ofObj ks) = []"
        using Nil by (simp add: nonSpace_ofObj atomsL_LV)
      ultimately show ?thesis
        using "2.IH"(2) [OF True a] "2.prems"(2) True
        by (simp add: holdsFirst_Cons ofObj_group del: ofObj.simps)
    next
      case (Cons y ys)
      then have "x1 = y" using "2.prems"(1) True by simp
      then have "x1 \<in> set (labelsOf ks)" using ak Cons by auto
      then have "x1 \<noteq> l" "x1 \<notin> oid ` set xs"
        using "2.prems"(2) top_notin [of x1 xs] by auto
      moreover have "nonSpace (map ofObj ks) \<noteq> []"
        using Cons by (simp add: nonSpace_ofObj atomsL_LV [symmetric])
      ultimately show ?thesis
        using True by (simp add: holdsFirst_Cons ofObj_group del: ofObj.simps)
    qed
  next
    case False
    note np = False
    show ?thesis
    proof (cases "class0 n = Some ''mspace''")
      case True
      then have a: "atomsL xs = x1 # rest" using "2.prems"(1) np by simp
      then have "x1 \<in> set (labelsOf xs)" using ax by auto
      then have "x1 \<noteq> l" using "2.prems"(2) by auto
      then show ?thesis
        using "2.IH"(3) [OF np True a] "2.prems"(2) True np
        by (simp add: holdsFirst_Cons ofObj_leaf del: ofObj.simps)
    next
      case False
      then show ?thesis
        using "2.prems"(1) np by (simp add: holdsFirst_Cons ofObj_leaf del: ofObj.simps)
    qed
  qed
qed

lemma frontIn_ofObj:
  assumes g: "\<not> checkPartialGroup g"
  shows "atomsL F = x1 # rest \<Longrightarrow> distinct (labelsOf F) \<Longrightarrow> x1 \<notin> oid ` set F \<Longrightarrow>
         map ofObj (insIn x1 (Obj k g []) F) = frontIn g (map ofObj F)"
proof (induction F arbitrary: rest rule: atomsL.induct)
  case 1
  then show ?case by simp
next
  case (2 l n ks xs)
  note ak = atomsL_sub [of ks] and ax = atomsL_sub [of xs]
  have dk: "distinct (labelsOf ks)" and dx: "distinct (labelsOf xs)"
    and kx: "set (labelsOf ks) \<inter> set (labelsOf xs) = {}"
    using "2.prems"(2) by auto
  have tx: "x1 \<notin> oid ` set xs" using "2.prems"(3) by auto
  show ?case
  proof (cases "checkPartialGroup n")
    case True
    show ?thesis
    proof (cases "atomsL ks")
      case Nil
      then have a: "atomsL xs = x1 # rest" using "2.prems"(1) True by simp
      then have "x1 \<in> set (labelsOf xs)" using ax by auto
      then have "x1 \<notin> set (labelsOf ks)" using kx by auto
      then have "insIn x1 (Obj k g []) ks = ks" "x1 \<notin> oid ` set ks"
        by (simp_all add: insIn_notin top_notin)
      moreover have "nonSpace (map ofObj ks) = []"
        using Nil by (simp add: nonSpace_ofObj atomsL_LV)
      ultimately show ?thesis
        using "2.IH"(2) [OF True a dx tx] True
        by (simp add: frontIn_Cons ofObj_group del: ofObj.simps)
    next
      case (Cons y ys)
      then have "x1 = y" using "2.prems"(1) True by simp
      then have ak1: "atomsL ks = x1 # ys" using Cons by simp
      then have "x1 \<in> set (labelsOf ks)" using ak by auto
      then have "x1 \<notin> set (labelsOf xs)" using kx by auto
      then have xs: "insIn x1 (Obj k g []) xs = xs" by (rule insIn_notin)
      have ne: "nonSpace (map ofObj ks) \<noteq> []"
        using Cons by (simp add: nonSpace_ofObj atomsL_LV [symmetric])
      have hf: "holdsFirst (map ofObj ks) = (x1 \<in> oid ` set ks)"
        by (rule holdsFirst_ofObj [OF ak1 dk])
      show ?thesis
      proof (cases "x1 \<in> oid ` set ks")
        case True
        then show ?thesis
          using xs ne hf g \<open>checkPartialGroup n\<close>
          by (simp add: frontIn_Cons ofObj_group ofObj_leaf del: ofObj.simps)
      next
        case False
        then show ?thesis
          using xs ne hf "2.IH"(1) [OF True ak1 dk False] True
          by (simp add: frontIn_Cons ofObj_group del: ofObj.simps)
      qed
    qed
  next
    case False
    note np = False
    show ?thesis
    proof (cases "class0 n = Some ''mspace''")
      case True
      then have a: "atomsL xs = x1 # rest" using "2.prems"(1) np by simp
      show ?thesis
        using "2.IH"(3) [OF np True a dx tx] np True
        by (simp add: frontIn_Cons ofObj_leaf del: ofObj.simps)
    next
      case False
      then have "x1 = l" using "2.prems"(1) np by simp
      then show ?thesis using "2.prems"(3) by simp
    qed
  qed
qed

lemma ofObj_insFront:
  assumes "\<not> checkPartialGroup g" "atomsL F = x1 # rest" "distinct (labelsOf F)"
  shows "map ofObj (insFront x1 (Obj k g []) F) = frontN g (map ofObj F)"
proof (cases "x1 \<in> oid ` set F")
  case True
  then show ?thesis
    using holdsFirst_ofObj [OF assms(2,3)] assms(1)
    by (simp add: insFront_def frontN_def ofObj_leaf del: ofObj.simps)
next
  case False
  then show ?thesis
    using holdsFirst_ofObj [OF assms(2,3)] frontIn_ofObj [OF assms(1,2,3) False]
    by (simp add: insFront_def frontN_def)
qed

lemma pass_fold:
  fixes R0 :: "('n, 'o) obj list"
  assumes g: "good cb" and d: "distinct (labelsOf R0)"
    and fr: "\<forall>l \<in> set (labelsOf R0). l < nl0"
  shows "\<exists>R' pr' nl'.
           foldl (avisit cb) (R0, dp, DummyPrev, nl0) (atomsL R0)
             = (R', dpN cb dp (map ofObj R0), pr', nl') \<and>
           map ofObj R' = passN cb dp (map ofObj R0)"
proof (cases "atomsLV R0")
  case Nil
  then have "atomsL R0 = []" by (simp add: atomsL_LV)
  moreover have "nonSpace (map ofObj R0) = []" using Nil by (simp add: nonSpace_ofObj)
  ultimately show ?thesis by (simp add: dpN_def passN_def)
next
  case (Cons a ys)
  obtain x1 a1 where a: "a = (x1, a1)" by (cases a)
  have al: "atomsL R0 = x1 # map fst ys" using Cons a atomsLV_fst [of R0] by simp
  have ns: "nonSpace (map ofObj R0) = a1 # map snd ys" using Cons a by (simp add: nonSpace_ofObj)
  obtain n1 dp' r0 where cb: "cb a1 dp = (n1, dp', r0)" by (cases "cb a1 dp")
  define v0 where "v0 = valOf dp R0"
  have r0: "revalue v0 R0 = R0" unfolding v0_def by (rule revalue_valOf [OF d])
  have x1R: "x1 \<in> set (labelsOf R0)" using al atomsL_sub [of R0] by auto
  have ysR: "fst ` set ys \<subseteq> set (labelsOf R0)" using al atomsL_sub [of R0] by auto
  have dal: "distinct (x1 # map fst ys)" using atomsL_distinct [OF d] al by simp
  have v0a: "v0 x1 = a1" using atomsLV_val [OF r0, of x1 a1] Cons a by simp
  have v0y: "v0 y = yv" if "(y, yv) \<in> set ys" for y yv
    using atomsLV_val [OF r0, of y yv] Cons that by simp
  have gr: "\<not> checkPartialGroup gl \<and> class0 gl = Some ''mspace''" if "r0 = Some gl" for gl
    using g cb that unfolding good_def by blast
  define Rb where "Rb = (case r0 of None \<Rightarrow> R0 | Some gl \<Rightarrow> insFront x1 (Obj nl0 gl []) R0)"
  define vb where "vb = (case r0 of None \<Rightarrow> v0 | Some gl \<Rightarrow> v0(nl0 := gl))"
  define nl1 where "nl1 = (case r0 of None \<Rightarrow> nl0 | Some gl \<Rightarrow> Suc nl0)"
  define v1 where "v1 = vb(x1 := n1)"
  have nl0R: "nl0 \<notin> set (labelsOf R0)" using fr by auto
  have lb: "distinct (labelsOf Rb)" "set (labelsOf R0) \<subseteq> set (labelsOf Rb)"
    "set (labelsOf Rb) \<subseteq> insert nl0 (set (labelsOf R0))"
    "r0 = None \<Longrightarrow> set (labelsOf Rb) = set (labelsOf R0)"
    using labelsOf_insFront [OF d nl0R] d by (auto simp: Rb_def split: option.splits)
  have ab: "atomsLV Rb = (x1, a1) # ys"
    using Cons a gr by (auto simp: Rb_def atomsLV_insFront split: option.splits)
  have rb: "revalue vb Rb = Rb"
  proof (cases r0)
    case None
    then show ?thesis using r0 by (simp add: Rb_def vb_def)
  next
    case (Some gl)
    have "revalue (v0(nl0 := gl)) R0 = revalue v0 R0"
      using nl0R by (intro revalue_cong) auto
    then show ?thesis using Some r0 by (simp add: Rb_def vb_def revalue_insFront)
  qed
  have fx: "findObj x1 R0 = Some xo \<Longrightarrow> onode xo = a1" for xo
    using v0a by (simp add: v0_def valOf_def)
  obtain xo where xo: "findObj x1 R0 = Some xo" "onode xo = a1"
    using x1R findObj_None_iff [of x1 R0] fx by (cases "findObj x1 R0") auto
  have sv: "setVal x1 n1 R0 = revalue (v0(x1 := n1)) R0"
    using setVal_revalue [OF d, of x1 n1 v0] r0 by simp
  have front: "(case r0 of None \<Rightarrow> setVal x1 n1 R0
                | Some gl \<Rightarrow> insFront x1 (Obj nl0 gl []) (setVal x1 n1 R0)) = revalue v1 Rb"
  proof (cases r0)
    case None
    then show ?thesis using sv by (simp add: Rb_def vb_def v1_def)
  next
    case (Some gl)
    have ne: "x1 \<noteq> nl0" using x1R nl0R by auto
    have "revalue ((v0(nl0 := gl))(x1 := n1)) R0 = revalue (v0(x1 := n1)) R0"
      using nl0R by (intro revalue_cong) auto
    then show ?thesis
      using Some sv ne by (simp add: Rb_def vb_def v1_def revalue_insFront)
  qed
  have step1: "avisit cb (R0, dp, DummyPrev, nl0) x1 = (revalue v1 Rb, dp', ObjRef x1, nl1)"
    using xo cb front
    by (cases r0) (simp_all add: avisit_def Let_def nl1_def)
  have q1: "GL (\<lambda>l. None) Rb" by (simp add: GL_def)
  have q2: "\<forall>l \<in> set (labelsOf Rb). l < nl1"
  proof
    fix l assume "l \<in> set (labelsOf Rb)"
    then have "l = nl0 \<and> r0 \<noteq> None \<or> l \<in> set (labelsOf R0)" using lb(3,4) by (cases r0) auto
    then show "l < nl1" using fr by (cases r0) (auto simp: nl1_def less_Suc_eq)
  qed
  have q3: "x1 \<in> set (labelsOf Rb)" using x1R lb(2) by auto
  have q4: "fst ` set ys \<subseteq> set (labelsOf Rb)" using ysR lb(2) by auto
  have q7: "\<forall>(y, yv) \<in> set ys. v1 y = yv"
  proof (clarify)
    fix y yv assume m: "(y, yv) \<in> set ys"
    then have "y \<in> fst ` set ys" by force
    then have "y \<noteq> x1" "y \<noteq> nl0" using dal ysR nl0R by auto
    then show "v1 y = yv" using v0y [OF m] by (simp add: v1_def vb_def split: option.splits)
  qed
  from T_fold [OF lb(1) q1 q2 q3 q4 dal _ q7, where cb = cb and dp = dp']
  obtain v' M' pr' nl' where
    f: "foldl (avisit cb) (insAll (\<lambda>l. None) (revalue v1 Rb), dp', ObjRef x1, nl1) (map fst ys)
          = (insAll M' (revalue v' Rb), dp', pr', nl')"
    and o: "okrP cb v' M' x1 (v1 x1) ys None"
    and frm: "\<forall>l. l \<notin> set (x1 # map fst ys) \<longrightarrow> v' l = v1 l \<and> M' l = None"
    by auto
  have F: "foldl (avisit cb) (R0, dp, DummyPrev, nl0) (atomsL R0)
             = (insAll M' (revalue v' Rb), dp', pr', nl')"
    using al step1 f by simp
  have O: "okr cb v' M' dp (atomsLV Rb) None"
    using o cb by (simp add: ab okr_def own_def v1_def)
  have alb: "atomsL Rb = x1 # map fst ys" using ab atomsLV_fst [of Rb] by simp
  have Q: "\<forall>l \<in> set (labelsOf Rb) - set (atomsL Rb). v' l = vb l \<and> M' l = None"
    using frm alb by (auto simp: v1_def)
  have "map ofObj (insAll M' (revalue v' Rb)) = travN cb dp (map ofObj Rb) None"
    by (rule ofObj_T [OF g lb(1) rb Q O])
  moreover have "map ofObj Rb = (case r0 of None \<Rightarrow> map ofObj R0
                                 | Some gl \<Rightarrow> frontN gl (map ofObj R0))"
    using gr ofObj_insFront [OF _ al d]
    by (cases r0) (simp_all add: Rb_def)
  ultimately have P: "map ofObj (insAll M' (revalue v' Rb)) = passN cb dp (map ofObj R0)"
    using ns cb by (cases r0) (simp_all add: passN_def)
  have D: "dpN cb dp (map ofObj R0) = dp'" using ns cb by (simp add: dpN_def)
  show ?thesis using F P D by auto
qed

lemma toObjs_props:
  "toObjs c ns = (os, c') \<Longrightarrow>
     map ofObj os = ns \<and> c \<le> c' \<and> distinct (labelsOf os) \<and>
     (\<forall>l \<in> set (labelsOf os). c \<le> l \<and> l < c')"
proof (induction c ns arbitrary: os c' rule: toObjs.induct)
  case (1 c)
  then show ?case by simp
next
  case (2 c f cs ns)
  show ?case
  proof (cases "checkPartialGroup (Node f cs)")
    case True
    obtain ks c1 where k: "toObjs (Suc c) cs = (ks, c1)" by (cases "toObjs (Suc c) cs")
    obtain os' c2 where o: "toObjs c1 ns = (os', c2)" by (cases "toObjs c1 ns")
    have r: "os = Obj c (Node f cs) ks # os'" "c' = c2" using "2.prems" True k o by auto
    note IH1 = "2.IH"(1) [OF True k]
    note IH2 = "2.IH"(2) [OF True k [symmetric] o]
    have "ofObj (Obj c (Node f cs) ks) = Node f cs"
      using True IH1 by (simp add: ofObj_group del: ofObj.simps)
    then show ?thesis using r IH1 IH2 by (fastforce simp del: ofObj.simps)
  next
    case False
    obtain os' c1 where o: "toObjs (Suc c) ns = (os', c1)" by (cases "toObjs (Suc c) ns")
    have r: "os = Obj c (Node f cs) [] # os'" "c' = c1" using "2.prems" False o by auto
    note IH = "2.IH"(3) [OF False o]
    have "ofObj (Obj c (Node f cs) []) = Node f cs"
      using False by (simp add: ofObj_leaf del: ofObj.simps)
    then show ?thesis using r IH by (fastforce simp del: ofObj.simps)
  qed
qed

lemma checkPartialGroup_setClass0 [simp]:
  "checkPartialGroup (setClass0 c n) = checkPartialGroup n"
  by (simp add: checkPartialGroup_def setClass0_def setClasses_def)

lemma good_cancelBin: "good cancelBin"
  by (auto simp: good_def cancelBin_def Let_def split: if_splits)

lemma good_spaceBetween: "glueOK X \<Longrightarrow> good (spaceBetween X glueOptions)"
  by (auto simp: good_def spaceBetween_def glueOK_def Let_def split: option.splits)

lemma travN_nonempty: "F \<noteq> [] \<Longrightarrow> travN cb p F nx \<noteq> []"
  by (cases F) (auto simp: travN_Cons after_def split: option.splits prod.splits)

lemma frontN_nonempty: "F \<noteq> [] \<Longrightarrow> frontN g F \<noteq> []"
  by (cases F) (auto simp: frontN_def frontIn_Cons)

lemma passN_nonempty: "F \<noteq> [] \<Longrightarrow> passN cb dp F \<noteq> []"
  by (auto simp: passN_def travN_nonempty frontN_nonempty split: list.splits prod.splits option.splits)

lemma pass_top:
  fixes st :: "('n, 'o) tstate"
  assumes g: "good cb"
    and d: "distinct (labelsOf (root st @ [nx]))"
    and fr: "\<forall>l \<in> set (labelsOf (root st @ [nx])). l < nlabel st"
    and pn: "prevNode st = DummyPrev" and pi: "prevInsertAfter st = None"
  shows "\<exists>st2 R'. traverseNonSpaceNodes cb st TopArray (Some nx) = Some (st2, Some (last R')) \<and>
           R' \<noteq> [] \<and> root st2 = butlast R' \<and>
           dummyPrev st2 = dpN cb (dummyPrev st) (map ofObj (root st @ [nx])) \<and>
           map ofObj R' = passN cb (dummyPrev st) (map ofObj (root st @ [nx])) \<and>
           distinct (labelsOf R') \<and> (\<forall>l \<in> set (labelsOf R'). l < nlabel st2)"
proof -
  from pass_fold [OF g d fr, of "dummyPrev st"] obtain R' pr' nl' where
    f: "foldl (avisit cb) (root st @ [nx], dummyPrev st, DummyPrev, nlabel st)
          (atomsL (root st @ [nx]))
        = (R', dpN cb (dummyPrev st) (map ofObj (root st @ [nx])), pr', nl')"
    and m: "map ofObj R' = passN cb (dummyPrev st) (map ofObj (root st @ [nx]))"
    by blast
  have "passN cb (dummyPrev st) (map ofObj (root st @ [nx])) \<noteq> []"
    by (rule passN_nonempty) simp
  then have ne: "R' \<noteq> []" using m by auto
  from traverse_top [OF d fr pn pi f] ne m show ?thesis by auto
qed

lemma cancelAndSpace_eq:
  fixes X :: "('n, 'o) ext"
  assumes "glueOK X"
  shows "cancelAndSpace X expression options surrounding groups
           = Ok (butlast
               (passN (spaceBetween X (glueOptionsOf X expression options))
                  (dpN cancelBin (sentinel X options (fst surrounding) ''leftmost'')
                     (groups @ [sentinel X options (snd surrounding) ''rightmost'']))
                  (passN cancelBin (sentinel X options (fst surrounding) ''leftmost'')
                     (groups @ [sentinel X options (snd surrounding) ''rightmost'']))))"
proof -
  let ?dp = "sentinel X options (fst surrounding) ''leftmost''"
  let ?dn = "sentinel X options (snd surrounding) ''rightmost''"
  let ?go = "glueOptionsOf X expression options"
  obtain objs c where t: "toObjs 0 groups = (objs, c)" by (cases "toObjs 0 groups")
  from toObjs_props [OF t] have og: "map ofObj objs = groups"
    and od: "distinct (labelsOf objs)" and ol: "\<forall>l \<in> set (labelsOf objs). l < c"
    by auto
  define st0 :: "('n, 'o) tstate" where
    "st0 = \<lparr>root = objs, dummyPrev = ?dp, ivar = (\<lambda>f. 0), nframe = 0,
            nlabel = Suc c, prevNode = DummyPrev, prevInsertAfter = None\<rparr>"
  have np: "\<not> checkPartialGroup ?dn"
    by (simp add: checkPartialGroup_def sentinel_def makeSpan_def newSpan_def sized_def
        initNode_def Let_def split: prod.splits option.splits)
  have on: "ofObj (Obj c ?dn []) = ?dn" using np by (simp add: ofObj_leaf del: ofObj.simps)
  have d0: "distinct (labelsOf (root st0 @ [Obj c ?dn []]))"
    using od ol by (auto simp: st0_def)
  have f0: "\<forall>l \<in> set (labelsOf (root st0 @ [Obj c ?dn []])). l < nlabel st0"
    using ol by (auto simp: st0_def)
  from pass_top [OF good_cancelBin d0 f0] obtain st1 R1 where
    p1: "traverseNonSpaceNodes cancelBin st0 TopArray (Some (Obj c ?dn [])) = Some (st1, Some (last R1))"
    and ne1: "R1 \<noteq> []" and r1: "root st1 = butlast R1"
    and dp1: "dummyPrev st1 = dpN cancelBin ?dp (groups @ [?dn])"
    and m1: "map ofObj R1 = passN cancelBin ?dp (groups @ [?dn])"
    and d1: "distinct (labelsOf R1)" and l1: "\<forall>l \<in> set (labelsOf R1). l < nlabel st1"
    using og on by (auto simp: st0_def simp del: ofObj.simps)
  define st1' where "st1' = st1\<lparr>prevNode := DummyPrev, prevInsertAfter := None\<rparr>"
  have R1: "root st1' @ [last R1] = R1" using ne1 r1 by (simp add: st1'_def)
  have d1': "distinct (labelsOf (root st1' @ [last R1]))" using d1 R1 by simp
  have f1': "\<forall>l \<in> set (labelsOf (root st1' @ [last R1])). l < nlabel st1'"
    using l1 R1 by (simp add: st1'_def)
  from pass_top [OF good_spaceBetween [OF assms, of ?go] d1' f1'] obtain st2 R2 where
    p2: "traverseNonSpaceNodes (spaceBetween X ?go) st1' TopArray (Some (last R1))
           = Some (st2, Some (last R2))"
    and r2: "root st2 = butlast R2"
    and m2: "map ofObj R2 = passN (spaceBetween X ?go) (dummyPrev st1') (map ofObj R1)"
    unfolding R1 by (auto simp: st1'_def)
  have "map ofObj (root st2)
          = butlast (passN (spaceBetween X ?go) (dpN cancelBin ?dp (groups @ [?dn]))
                       (passN cancelBin ?dp (groups @ [?dn])))"
    using r2 m2 m1 dp1 by (simp add: map_butlast st1'_def)
  then show ?thesis
    using t p1 p2
    by (simp add: cancelAndSpace_def Let_def st0_def [symmetric] st1'_def [symmetric]
        glueOptionsOf_def [symmetric] sentinel_def [symmetric])
qed

lemma nonSpace_append [simp]: "nonSpace (F @ G) = nonSpace F @ nonSpace G"
  by (induction F rule: nonSpace.induct) auto

lemma nextOf_append: "nextOf (F @ G) nx = nextOf F (nextOf G nx)"
  by (cases "nonSpace F") (auto simp: nextOf_def)

lemma nextOf_Cons:
  "nextOf (n # ns) nx =
     (if checkPartialGroup n then nextOf (children n) (nextOf ns nx)
      else if class0 n = Some ''mspace'' then nextOf ns nx
      else Some n)"
  by (cases "nonSpace (children n)") (auto simp: nextOf_def nonSpace_Cons)

lemma travN_append:
  "travN cb p (F @ G) nx
     = travN cb p F (nextOf G nx) @ travN cb (foldl (own cb) p (nonSpace F)) G nx"
proof (induction F arbitrary: p)
  case Nil
  then show ?case by simp
next
  case (Cons n F)
  then show ?case by (simp add: travN_Cons nextOf_append nonSpace_Cons)
qed

lemma travN_noatoms: "nonSpace F = [] \<Longrightarrow> travN cb p F nx = F"
proof (induction cb p F nx rule: travN.induct)
  case (1 cb p nx)
  then show ?case by simp
next
  case (2 cb p f cs ns nx)
  then show ?case by (auto split: if_splits)
qed

lemma holdsFirst_append:
  "holdsFirst (B @ C) = (if nonSpace B = [] then holdsFirst C else holdsFirst B)"
  by (induction B) (auto simp: holdsFirst_Cons nonSpace_Cons)

lemma frontIn_append:
  "frontIn g (B @ C) = (if nonSpace B = [] then B @ frontIn g C else frontIn g B @ C)"
  by (induction B) (auto simp: frontIn_Cons nonSpace_Cons)

lemma frontN_snoc:
  assumes "\<not> checkPartialGroup s" "nonSpace (B @ [s]) \<noteq> []"
  shows "frontN g (B @ [s]) = frontB g B @ [s]"
proof (cases "nonSpace B = []")
  case True
  then have "class0 s \<noteq> Some ''mspace''" using assms by (simp add: nonSpace_Cons split: if_splits)
  then show ?thesis
    using True assms(1) by (simp add: frontN_def frontB_def holdsFirst_append holdsFirst_Cons)
next
  case False
  then show ?thesis
    by (simp add: frontN_def frontB_def holdsFirst_append frontIn_append)
qed

lemma nonSpace_frontIn:
  "\<not> checkPartialGroup g \<Longrightarrow> class0 g = Some ''mspace'' \<Longrightarrow> nonSpace (frontIn g F) = nonSpace F"
  by (induction g F rule: frontIn.induct) (auto simp: checkPartialGroup_Node class0_Node nonSpace_Cons)

lemma nonSpace_frontB:
  "\<not> checkPartialGroup g \<Longrightarrow> class0 g = Some ''mspace'' \<Longrightarrow> nonSpace (frontB g F) = nonSpace F"
  by (simp add: frontB_def frontN_def nonSpace_frontIn nonSpace_Cons)

lemma travN_single:
  "\<not> checkPartialGroup s \<Longrightarrow>
     travN cb p [s] None = [if class0 s = Some ''mspace'' then s else own cb p s]"
  by (simp add: travN_Cons nextOf_def after_def)

lemma passN_snoc:
  assumes g: "good cb" and s: "\<not> checkPartialGroup s"
  shows "passN cb dp (B @ [s]) = passB cb dp B (nextOf [s] None) @ [lastB cb dp B s]"
    and "dpN cb dp (B @ [s]) = dpB cb dp B (nextOf [s] None)"
proof -
  let ?nx = "nextOf [s] None"
  have nx: "nextOf (B @ [s]) None = nextOf B ?nx" by (rule nextOf_append)
  show "dpN cb dp (B @ [s]) = dpB cb dp B ?nx"
    using nx by (simp add: dpN_def dpB_def nextOf_def split: list.splits)
  show "passN cb dp (B @ [s]) = passB cb dp B ?nx @ [lastB cb dp B s]"
  proof (cases "nonSpace (B @ [s])")
    case Nil
    then have "nextOf B ?nx = None" "class0 s = Some ''mspace''"
      using nx s by (auto simp: nextOf_def nonSpace_Cons split: if_splits)
    then show ?thesis using Nil by (simp add: passN_def passB_def lastB_def)
  next
    case (Cons a as)
    then have na: "nextOf B ?nx = Some a" using nx by (simp add: nextOf_def)
    obtain n1 p1 r where cb: "cb a dp = (n1, p1, r)" by (cases "cb a dp")
    show ?thesis
    proof (cases r)
      case None
      then show ?thesis
        using Cons na cb s
        by (simp add: passN_def passB_def lastB_def travN_append travN_single)
    next
      case (Some gl)
      then have gg: "\<not> checkPartialGroup gl" "class0 gl = Some ''mspace''"
        using g cb unfolding good_def by blast+
      have "frontN gl (B @ [s]) = frontB gl B @ [s]"
        using Cons by (intro frontN_snoc [OF s]) simp
      then show ?thesis
        using Cons na cb s Some nonSpace_frontB [OF gg, of B]
        by (simp add: passN_def passB_def lastB_def travN_append travN_single)
    qed
  qed
qed

lemma sentinel_leaf: "\<not> checkPartialGroup (sentinel X options s d)"
  by (simp add: checkPartialGroup_def sentinel_def makeSpan_def newSpan_def sized_def
      initNode_def Let_def split: prod.splits option.splits)

lemma own_leaf: "good cb \<Longrightarrow> \<not> checkPartialGroup a \<Longrightarrow> \<not> checkPartialGroup (own cb q a)"
  unfolding good_def own_def by (metis prod.collapse)

lemma lastB_leaf: "good cb \<Longrightarrow> \<not> checkPartialGroup s \<Longrightarrow> \<not> checkPartialGroup (lastB cb dp B s)"
  by (simp add: lastB_def own_leaf)

lemma cancelAndSpace_nodes:
  fixes X :: "('n, 'o) ext" and options :: 'o and surrounding :: "string option \<times> string option"
  assumes "glueOK X"
  defines "L \<equiv> sentinel X options (fst surrounding) ''leftmost''"
    and "R \<equiv> sentinel X options (snd surrounding) ''rightmost''"
  shows "cancelAndSpace X expression options surrounding groups
           = Ok (passB (spaceBetween X (glueOptionsOf X expression options))
                   (dpB cancelBin L groups (nextOf [R] None))
                   (passB cancelBin L groups (nextOf [R] None))
                   (nextOf [lastB cancelBin L groups R] None))"
proof -
  have r: "\<not> checkPartialGroup R" unfolding R_def by (rule sentinel_leaf)
  have r1: "\<not> checkPartialGroup (lastB cancelBin L groups R)"
    by (rule lastB_leaf [OF good_cancelBin r])
  note p1 = passN_snoc [OF good_cancelBin r, of L groups]
  note p2 = passN_snoc(1) [OF good_spaceBetween [OF assms(1)] r1]
  show ?thesis
    unfolding cancelAndSpace_eq [OF assms(1)] L_def [symmetric] R_def [symmetric] p1 p2
    by simp
qed

lemma spaceBetween_specGlue:
  "spaceBetween X glueOptions cur prev = (cur, prev, specGlue X glueOptions prev cur)"
  by (simp add: spaceBetween_def specGlue_def Let_def split: option.splits)

lemma own_spaceBetween [simp]: "own (spaceBetween X glueOptions) q a = a"
  by (simp add: own_def spaceBetween_specGlue)

lemma foldl_own_spaceBetween [simp]: "foldl (own (spaceBetween X glueOptions)) p as = last (p # as)"
  by (induction as arbitrary: p) auto

lemma after_spaceBetween:
  "after (spaceBetween X glueOptions) n nxt
     = n # (case nxt of
              None \<Rightarrow> []
            | Some b \<Rightarrow> (case specGlue X glueOptions n b of None \<Rightarrow> [] | Some g \<Rightarrow> [g]))"
proof (cases nxt)
  case None
  then show ?thesis by (simp add: after_def)
next
  case (Some b)
  have "spaceBetween X glueOptions b n = (b, n, specGlue X glueOptions n b)"
    by (rule spaceBetween_specGlue)
  then show ?thesis using Some by (simp add: after_def)
qed

lemma travN_spaceBetween:
  "travN (spaceBetween X glueOptions) p F nx = glueAfter X glueOptions F nx"
proof (induction X glueOptions F nx arbitrary: p rule: glueAfter.induct)
  case (1 X glueOptions nx)
  then show ?case by simp
next
  case (2 X glueOptions f cs ns nx)
  then show ?case by (simp add: after_spaceBetween)
qed

lemma passB_spaceBetween:
  "passB (spaceBetween X glueOptions) left F nx = spacingSpec X glueOptions left F nx"
proof (cases "nextOf F nx")
  case None
  then show ?thesis by (simp add: passB_def spacingSpec_def)
next
  case (Some a)
  have "spaceBetween X glueOptions a left = (a, left, specGlue X glueOptions left a)"
    by (rule spaceBetween_specGlue)
  then show ?thesis using Some by (simp add: passB_def spacingSpec_def travN_spaceBetween)
qed

lemma nonSpace_atoms: "a \<in> set (nonSpace F) \<Longrightarrow> isAtom a"
  by (induction F rule: nonSpace.induct) (auto simp: isAtom_def split: if_splits)

lemma nonSpace_id: "\<forall>a \<in> set as. isAtom a \<Longrightarrow> nonSpace as = as"
  by (induction as) (auto simp: nonSpace_Cons isAtom_def)

lemma nonSpace_idem [simp]: "nonSpace (nonSpace F) = nonSpace F"
  by (rule nonSpace_id) (auto intro: nonSpace_atoms)

lemma nextOf_nonSpace [simp]: "nextOf (nonSpace F) nx = nextOf F nx"
  by (simp add: nextOf_def)

lemma class0_setClass0: "class0 n = Some c \<Longrightarrow> class0 (setClass0 d n) = Some d"
  by (cases "classes (fld n)") (auto simp: class0_def setClass0_def setClasses_def)

lemma own_cancelBin: "own cancelBin p a = lcancel p a"
  by (auto simp: own_def cancelBin_def lcancel_def Let_def contains_def binRightCanceller_def)

lemma after_cancelBin: "after cancelBin n nxt = [rcancel n nxt]"
proof (cases nxt)
  case None
  then show ?thesis by (simp add: after_def rcancel_def)
next
  case (Some b)
  then show ?thesis
    by (auto simp: after_def rcancel_def cancelBin_def Let_def contains_def
        binLeftCanceller_def binRightCanceller_def)
qed

lemma isAtom_setClass0: "isAtom n \<Longrightarrow> class0 n = Some ''mbin'' \<Longrightarrow> isAtom (setClass0 ''mord'' n)"
  by (simp add: isAtom_def class0_setClass0)

lemma isAtom_lcancel: "isAtom a \<Longrightarrow> isAtom (lcancel p a)"
  by (simp add: lcancel_def isAtom_setClass0)

lemma isAtom_rcancel: "isAtom a \<Longrightarrow> isAtom (rcancel a nxt)"
  by (cases nxt) (simp_all add: rcancel_def isAtom_setClass0)

lemma class0_lcancel:
  "class0 (lcancel p a) = Some ''mbin''
     \<longleftrightarrow> class0 a = Some ''mbin'' \<and> \<not> contains binLeftCanceller (class0 p)"
  by (auto simp: lcancel_def class0_setClass0)

lemma class0_rcancel:
  "class0 (rcancel n nxt) = Some ''mbin''
     \<longleftrightarrow> class0 n = Some ''mbin'' \<and>
         (case nxt of None \<Rightarrow> True | Some b \<Rightarrow> \<not> contains binRightCanceller (class0 b))"
  by (cases nxt) (auto simp: rcancel_def class0_setClass0)

lemma class0_lcancel_cases: "class0 (lcancel p a) = class0 a \<or> class0 (lcancel p a) = Some ''mord''"
  by (auto simp: lcancel_def class0_setClass0)

lemma class0_rcancel_cases: "class0 (rcancel n nxt) = class0 n \<or> class0 (rcancel n nxt) = Some ''mord''"
  by (cases nxt) (auto simp: rcancel_def class0_setClass0)

lemma travN_cancel_atom:
  "isAtom a \<Longrightarrow>
     travN cancelBin p (a # as) nx
       = rcancel (lcancel p a) (nextOf as nx) # travN cancelBin (lcancel p a) as nx"
  by (simp add: travN_Cons isAtom_def own_cancelBin after_cancelBin)

lemma nonSpace_travN_cancel:
  "nonSpace (travN cancelBin p F nx) = travN cancelBin p (nonSpace F) nx"
proof (induction F arbitrary: p nx rule: nonSpace.induct)
  case 1
  then show ?case by simp
next
  case (2 f cs ns)
  let ?n = "Node f cs"
  show ?case
  proof (cases "checkPartialGroup ?n")
    case True
    then show ?thesis
      using 2 by (simp add: travN_append nonSpace_Cons checkPartialGroup_Node)
  next
    case False
    note np = False
    show ?thesis
    proof (cases "class0 ?n = Some ''mspace''")
      case True
      then show ?thesis using 2 np by (simp add: nonSpace_Cons)
    next
      case False
      then have a: "isAtom ?n" using np by (simp add: isAtom_def)
      have "isAtom (rcancel (lcancel p ?n) (nextOf ns nx))"
        by (intro isAtom_rcancel isAtom_lcancel a)
      then show ?thesis
        using 2(4) [OF np False] np False a
        by (simp add: own_cancelBin after_cancelBin nonSpace_Cons isAtom_def travN_Cons
            del: travN.simps)
    qed
  qed
qed

lemma bins_mord: "binsCancelled c cs r \<Longrightarrow> binsCancelled (Some ''mord'') cs r"
  by (cases cs) (auto simp: contains_def binLeftCanceller_def)

lemma nextOf_atoms:
  "isAtom b \<Longrightarrow> nextOf (b # as) nx = Some b"
  by (simp add: nextOf_Cons isAtom_def)

lemma bins_flat:
  assumes "case nx of None \<Rightarrow> \<not> contains binRightCanceller rc | Some r \<Rightarrow> class0 r = rc"
  shows "\<forall>a \<in> set as. isAtom a \<Longrightarrow>
         binsCancelled (class0 p) (map class0 (travN cancelBin p as nx)) rc"
proof (induction as arbitrary: p)
  case Nil
  then show ?case by simp
next
  case (Cons a as)
  let ?n1 = "lcancel p a"
  let ?n2 = "rcancel ?n1 (nextOf as nx)"
  let ?T = "travN cancelBin ?n1 as nx"
  have a: "isAtom a" and as: "\<forall>a \<in> set as. isAtom a" using Cons.prems by auto
  have t: "travN cancelBin p (a # as) nx = ?n2 # ?T" by (rule travN_cancel_atom [OF a])
  have IH: "binsCancelled (class0 ?n1) (map class0 ?T) rc" by (rule Cons.IH [OF as])
  have tail: "binsCancelled (class0 ?n2) (map class0 ?T) rc"
    using IH class0_rcancel_cases [of ?n1 "nextOf as nx"] bins_mord by metis
  have head: "\<not> contains binLeftCanceller (class0 p) \<and>
              \<not> contains binRightCanceller (case map class0 ?T of [] \<Rightarrow> rc | d # _ \<Rightarrow> d)"
    if m: "class0 ?n2 = Some ''mbin''"
  proof
    have n1: "class0 ?n1 = Some ''mbin''" using m by (simp add: class0_rcancel)
    then show "\<not> contains binLeftCanceller (class0 p)" by (simp add: class0_lcancel)
    show "\<not> contains binRightCanceller (case map class0 ?T of [] \<Rightarrow> rc | d # _ \<Rightarrow> d)"
    proof (cases as)
      case Nil
      then show ?thesis
        using m assms by (cases nx) (simp_all add: class0_rcancel nextOf_def)
    next
      case (Cons b bs)
      have b: "isAtom b" using as Cons by simp
      have nb: "\<not> contains binRightCanceller (class0 b)"
        using m Cons nextOf_atoms [OF b] by (simp add: class0_rcancel)
      have "?T = rcancel (lcancel ?n1 b) (nextOf bs nx) # travN cancelBin (lcancel ?n1 b) bs nx"
        unfolding Cons by (rule travN_cancel_atom [OF b])
      moreover have "\<not> contains binRightCanceller (class0 (rcancel (lcancel ?n1 b) (nextOf bs nx)))"
        using nb class0_rcancel_cases [of "lcancel ?n1 b" "nextOf bs nx"]
          class0_lcancel_cases [of ?n1 b]
        by (auto simp: contains_def binRightCanceller_def)
      ultimately show ?thesis by simp
    qed
  qed
  show ?case unfolding t using head tail by simp
qed

lemma specGlue_glue:
  "glueOK X \<Longrightarrow> specGlue X glueOptions p c = Some g \<Longrightarrow>
     \<not> checkPartialGroup g \<and> class0 g = Some ''mspace''"
  by (auto simp: specGlue_def glueOK_def split: option.splits)

lemma nonSpace_glueAfter:
  assumes "glueOK X"
  shows "nonSpace (glueAfter X glueOptions F nx) = nonSpace F"
proof (induction F arbitrary: nx rule: nonSpace.induct)
  case 1
  then show ?case by simp
next
  case (2 f cs ns)
  let ?n = "Node f cs"
  have g: "nonSpace ((case specGlue X glueOptions ?n b of None \<Rightarrow> [] | Some g \<Rightarrow> [g]) @ zs)
             = nonSpace zs" for b zs
    using specGlue_glue [OF assms, of glueOptions ?n b]
    by (cases "specGlue X glueOptions ?n b") (auto simp: nonSpace_Cons)
  show ?case
  proof (cases "checkPartialGroup ?n")
    case True
    then show ?thesis using 2 by (simp add: checkPartialGroup_Node)
  next
    case False
    then show ?thesis
      using 2 g by (cases "nextOf ns nx") (auto simp del: nonSpace_append)
  qed
qed

lemma nonSpace_spacingSpec:
  assumes "glueOK X"
  shows "nonSpace (spacingSpec X glueOptions left F nx) = nonSpace F"
proof (cases "nextOf F nx")
  case None
  then show ?thesis by (simp add: spacingSpec_def)
next
  case (Some a)
  show ?thesis
  proof (cases "specGlue X glueOptions left a")
    case None
    then show ?thesis using Some by (simp add: spacingSpec_def nonSpace_glueAfter [OF assms])
  next
    case (Some g)
    then show ?thesis
      using \<open>nextOf F nx = Some a\<close> specGlue_glue [OF assms Some]
      by (simp add: spacingSpec_def nonSpace_glueAfter [OF assms] nonSpace_frontB)
  qed
qed

lemma passB_cancelBin: "passB cancelBin left F nx = travN cancelBin left F nx"
proof (cases "nextOf F nx")
  case None
  then have "nonSpace F = []" by (cases "nonSpace F") (simp_all add: nextOf_def)
  then show ?thesis using None by (simp add: passB_def travN_noatoms)
next
  case (Some a)
  then show ?thesis by (simp add: passB_def cancelBin_def Let_def)
qed

lemma sentinel_class0: "class0 (sentinel X options s d) = Some (truthy s d)"
  by (simp add: class0_def sentinel_def makeSpan_def newSpan_def sized_def initNode_def Let_def
      split: prod.splits option.splits)


subsection \<open>SourceLocation.range\<close>

text \<open>
  C10. \<^verbatim>\<open>SourceLocation.range(first, second)\<close> returns \<^verbatim>\<open>first.loc\<close> when \<^verbatim>\<open>second\<close> is
  absent (\<^verbatim>\<open>undefined\<close> when \<^verbatim>\<open>first\<close> is absent too); when both arguments carry
  locations of the same lexer it returns the location from the start of the first to the
  end of the second, on that lexer; in every other case it returns \<^verbatim>\<open>undefined\<close>. A result
  for two arguments therefore never combines locations of different lexers.
\<close>

theorem range_cases:
  "SourceLocation_range first None = (case first of None \<Rightarrow> None | Some f \<Rightarrow> loc f)
   \<and> (\<forall>f s fl sl. loc f = Some fl \<and> loc s = Some sl \<and> lexer fl = lexer sl \<longrightarrow>
         SourceLocation_range (Some f) (Some s)
           = Some \<lparr>lexer = lexer fl, start = start fl, end' = end' sl\<rparr>)
   \<and> (\<forall>s. (\<nexists>f fl sl. first = Some f \<and> loc f = Some fl \<and> loc s = Some sl
                 \<and> lexer fl = lexer sl) \<longrightarrow>
         SourceLocation_range first (Some s) = None)
   \<and> (\<forall>f s r. SourceLocation_range (Some f) (Some s) = Some r \<longrightarrow>
         (\<exists>fl sl. loc f = Some fl \<and> loc s = Some sl \<and> lexer fl = lexer sl
            \<and> lexer r = lexer fl \<and> start r = start fl \<and> end' r = end' sl))"
  by (auto simp: SourceLocation_range_def split: option.splits)

theorem range_cases_witness:
  "SourceLocation_range (Some \<lparr>loc = Some \<lparr>lexer = 7, start = 2, end' = 5\<rparr>\<rparr>) None
     = Some \<lparr>lexer = 7, start = 2, end' = 5\<rparr>
   \<and> SourceLocation_range (Some \<lparr>loc = Some \<lparr>lexer = 7, start = 2, end' = 5\<rparr>\<rparr>)
         (Some \<lparr>loc = Some \<lparr>lexer = 7, start = 9, end' = 12\<rparr>\<rparr>)
     = Some \<lparr>lexer = 7, start = 2, end' = 12\<rparr>
   \<and> SourceLocation_range (Some \<lparr>loc = Some \<lparr>lexer = 7, start = 2, end' = 5\<rparr>\<rparr>)
         (Some \<lparr>loc = Some \<lparr>lexer = 8, start = 9, end' = 12\<rparr>\<rparr>)
     = None
   \<and> SourceLocation_range (Some \<lparr>loc = None\<rparr>)
         (Some \<lparr>loc = Some \<lparr>lexer = 8, start = 9, end' = 12\<rparr>\<rparr>)
     = None"
  using range_cases [of "Some \<lparr>loc = Some \<lparr>lexer = 7, start = 2, end' = 5\<rparr>\<rparr>"]
    range_cases [of "Some \<lparr>loc = None\<rparr>"]
  by (simp add: SourceLocation_range_def)

subsection \<open>Root assembly\<close>

lemma postOperatorGlue_parts:
  "postOperatorGlue es parts nb = (rest, parts', nb') \<Longrightarrow> parts \<noteq> [] \<Longrightarrow> parts' \<noteq> []"
  by (induction es arbitrary: parts nb) (auto split: if_splits)

lemma postOperatorGlue_rest:
  "postOperatorGlue es parts nb = (rest, parts', nb') \<Longrightarrow> set rest \<subseteq> set es"
  by (induction es arbitrary: parts nb) (auto split: if_splits)

lemma chunks_elems:
  "c \<in> set (chunks X options es children' parts) \<Longrightarrow>
     c \<in> set children' \<or> c \<in> set es
       \<or> (\<exists>ps. ps \<noteq> [] \<and> c = buildHTMLUnbreakable X ps options)"
proof (induction X options es children' parts rule: chunks.induct)
  case (1 X options children' parts)
  then show ?case by (auto split: if_splits)
next
  case (2 X options e es children' parts)
  show ?case
  proof (cases "hasClass e ''mbin'' \<or> hasClass e ''mrel'' \<or> hasClass e ''allowbreak''")
    case True
    obtain rest ps nb where g: "postOperatorGlue es (parts @ [e]) False = (rest, ps, nb)"
      by (metis prod_cases3)
    have ps: "ps \<noteq> []"
      using postOperatorGlue_parts [OF g] by simp
    have rest: "set rest \<subseteq> set es"
      using postOperatorGlue_rest [OF g] .
    show ?thesis
    proof (cases nb)
      case True
      with \<open>hasClass e ''mbin'' \<or> hasClass e ''mrel'' \<or> hasClass e ''allowbreak''\<close> g
        "2.IH"(2) "2.prems"
      have "c \<in> set children' \<or> c \<in> set rest
              \<or> (\<exists>ps. ps \<noteq> [] \<and> c = buildHTMLUnbreakable X ps options)"
        by (simp add: Let_def)
      with rest show ?thesis by auto
    next
      case False
      with \<open>hasClass e ''mbin'' \<or> hasClass e ''mrel'' \<or> hasClass e ''allowbreak''\<close> g
        "2.IH"(1) "2.prems"
      have "c \<in> set (children' @ [buildHTMLUnbreakable X ps options]) \<or> c \<in> set rest
              \<or> (\<exists>ps. ps \<noteq> [] \<and> c = buildHTMLUnbreakable X ps options)"
        by (simp add: Let_def)
      with rest ps show ?thesis by auto
    qed
  next
    case False
    note nop = this
    show ?thesis
    proof (cases "hasClass e ''newline''")
      case True
      show ?thesis
      proof (cases "parts = []")
        case True
        with nop \<open>hasClass e ''newline''\<close> "2.IH"(4) "2.prems"
        have "c \<in> set (children' @ [e]) \<or> c \<in> set es
                \<or> (\<exists>ps. ps \<noteq> [] \<and> c = buildHTMLUnbreakable X ps options)"
          by (simp add: Let_def)
        then show ?thesis by auto
      next
        case False
        with nop \<open>hasClass e ''newline''\<close> "2.IH"(3) "2.prems"
        have "c \<in> set (children' @ [buildHTMLUnbreakable X parts options] @ [e]) \<or> c \<in> set es
                \<or> (\<exists>ps. ps \<noteq> [] \<and> c = buildHTMLUnbreakable X ps options)"
          by (simp add: Let_def)
        with False show ?thesis by auto
      qed
    next
      case False
      with nop "2.IH"(5) "2.prems"
      have "c \<in> set children' \<or> c \<in> set es
              \<or> (\<exists>ps. ps \<noteq> [] \<and> c = buildHTMLUnbreakable X ps options)"
        by (simp add: Let_def)
      then show ?thesis by auto
    qed
  qed
qed

lemma initNode_simps [simp]:
  "kind (initNode X k cs opts st) = k"
  "attributes (initNode X k cs opts st) = []"
  "isMiddle (initNode X k cs opts st) = None"
  "classes (initNode X k (Some cs') None st) = cs'"
  "classes (initNode X k None None st) = []"
  "classes (initNode X k (Some cs') (Some o') st) = (if isTight X o' then cs' @ [''mtight''] else cs')"
  "style (initNode X k cs None st) = (case st of None \<Rightarrow> [] | Some s \<Rightarrow> s)"
  by (simp_all add: initNode_def Let_def split: option.splits)

lemma sized_simps [simp]:
  "children (sized X n) = children n"
  "classes (fld (sized X n)) = classes (fld n)"
  "style (fld (sized X n)) = style (fld n)"
  "attributes (fld (sized X n)) = attributes (fld n)"
  "kind (fld (sized X n)) = kind (fld n)"
  "isMiddle (fld (sized X n)) = isMiddle (fld n)"
  "(height (fld (sized X n)), depth (fld (sized X n)), maxFontSize (fld (sized X n)))
     = sizeElementFromChildren X (children n)"
  by (simp_all add: sized_def split: prod.splits)

lemma makeSpan_simps [simp]:
  "children (makeSpan X cs (Some ch) opts st) = ch"
  "children (makeSpan X cs None opts st) = []"
  "classes (fld (makeSpan X cs och opts st)) = classes (initNode X Span cs opts st)"
  "style (fld (makeSpan X cs och opts st)) = style (initNode X Span cs opts st)"
  "attributes (fld (makeSpan X cs och opts st)) = []"
  "kind (fld (makeSpan X cs och opts st)) = Span"
  "isMiddle (fld (makeSpan X cs och opts st)) = None"
  by (simp_all add: makeSpan_def newSpan_def)

lemma makeSpan_size:
  "(height (fld (makeSpan X cs ch opts st)), depth (fld (makeSpan X cs ch opts st)),
    maxFontSize (fld (makeSpan X cs ch opts st)))
     = sizeElementFromChildren X (case ch of None \<Rightarrow> [] | Some c \<Rightarrow> c)"
  by (simp add: makeSpan_def newSpan_def)

lemma set_simps [simp]:
  "children (setStyle k v n) = children n"
  "classes (fld (setStyle k v n)) = classes (fld n)"
  "style (fld (setStyle k v n)) = setProp k v (style (fld n))"
  "height (fld (setStyle k v n)) = height (fld n)"
  "depth (fld (setStyle k v n)) = depth (fld n)"
  "children (setChildren cs n) = cs"
  "fld (setChildren cs n) = fld n"
  "children (setClasses c n) = children n"
  "classes (fld (setClasses c n)) = c"
  "height (fld (setClasses c n)) = height (fld n)"
  "depth (fld (setClasses c n)) = depth (fld n)"
  "style (fld (setClasses c n)) = style (fld n)"
  "children (setAttribute k v n) = children n"
  "classes (fld (setAttribute k v n)) = classes (fld n)"
  "height (fld (setAttribute k v n)) = height (fld n)"
  "depth (fld (setAttribute k v n)) = depth (fld n)"
  "attributes (fld (setAttribute k v n)) = setProp k v (attributes (fld n))"
  by (simp_all add: setStyle_def setChildren_def setClasses_def setAttribute_def)

lemma unbreakable_shape:
  "children (buildHTMLUnbreakable X cs options)
     = setStyle ''verticalAlign''
         (numStr X (numNeg X (depth (fld (makeSpan X (Some [''base'']) (Some cs) (Some options) None)))) @ ''em'')
         (setStyle ''height''
            (numStr X (numAdd X (height (fld (makeSpan X (Some [''base'']) (Some cs) (Some options) None)))
                         (depth (fld (makeSpan X (Some [''base'']) (Some cs) (Some options) None)))) @ ''em'')
            (makeSpan X (Some [''strut'']) None None None)) # cs"
  "fld (buildHTMLUnbreakable X cs options) = fld (makeSpan X (Some [''base'']) (Some cs) (Some options) None)"
  by (simp_all add: buildHTMLUnbreakable_def Let_def)

lemma base_span_strut_shape:
  "(let body = buildHTMLUnbreakable X children' options; strut = hd (children body) in
      children body = strut # children'
      \<and> classes (fld strut) = [''strut'']
      \<and> style (fld strut)
           = [(''height'', numStr X (numAdd X (height (fld body)) (depth (fld body))) @ ''em''),
              (''verticalAlign'', numStr X (numNeg X (depth (fld body))) @ ''em'')])"
  by (simp add: Let_def unbreakable_shape)

text \<open>
  C3. \<^verbatim>\<open>buildHTMLUnbreakable\<close> returns a span of first class \<^verbatim>\<open>base\<close> whose height and depth
  are computed from the children it was given, and whose first child is a span of class
  \<^verbatim>\<open>strut\<close> with exactly two styles: the height \<^verbatim>\<open>(body.height + body.depth) + "em"\<close> and
  the vertical alignment \<^verbatim>\<open>-body.depth + "em"\<close>; the other children are the children
  given. Every child that root assembly puts into the root for a tree without a tag is
  a node of the expression (a newline) or such a span.
\<close>

theorem base_span_strut:
  "(let body = buildHTMLUnbreakable X children' options; strut = hd (children body) in
      (height (fld body), depth (fld body), maxFontSize (fld body))
         = sizeElementFromChildren X children'
      \<and> hd (classes (fld body)) = ''base''
      \<and> children body = strut # children'
      \<and> classes (fld strut) = [''strut'']
      \<and> style (fld strut)
           = [(''height'', numStr X (numAdd X (height (fld body)) (depth (fld body))) @ ''em''),
              (''verticalAlign'', numStr X (numNeg X (depth (fld body))) @ ''em'')])
   \<and> (\<forall>c \<in> set (chunks X options expression [] []).
         c \<in> set expression
         \<or> (\<exists>parts. parts \<noteq> [] \<and> c = buildHTMLUnbreakable X parts options))"
proof -
  have "\<forall>c \<in> set (chunks X options expression [] []).
          c \<in> set expression \<or> (\<exists>parts. parts \<noteq> [] \<and> c = buildHTMLUnbreakable X parts options)"
    using chunks_elems [of _ X options expression "[]" "[]"] by auto
  moreover have "(height (fld (buildHTMLUnbreakable X children' options)),
                  depth (fld (buildHTMLUnbreakable X children' options)),
                  maxFontSize (fld (buildHTMLUnbreakable X children' options)))
                   = sizeElementFromChildren X children'"
    using makeSpan_size [of X "Some [''base'']" "Some children'" "Some options" None]
    by (simp add: unbreakable_shape)
  ultimately show ?thesis
    by (simp add: Let_def unbreakable_shape)
qed

theorem base_span_strut_witness:
  "buildHTMLUnbreakable exampleExt [exSymbol ''a'' [''mord''] [] 7 2] []
     \<in> set (chunks exampleExt [] [exSymbol ''a'' [''mord''] [] 7 2] [] [])
   \<and> style (fld (hd (children
         (buildHTMLUnbreakable exampleExt [exSymbol ''a'' [''mord''] [] 7 2] []))))
       = [(''height'', ''9em''), (''verticalAlign'', ''-2em'')]"
proof -
  have a: "chunks exampleExt [] [exSymbol ''a'' [''mord''] [] 7 2] [] []
             = [buildHTMLUnbreakable exampleExt [exSymbol ''a'' [''mord''] [] 7 2] []]"
    by (simp add: hasClass_def exSymbol_def)
  have b: "height (fld (buildHTMLUnbreakable exampleExt [exSymbol ''a'' [''mord''] [] 7 2] [])) = 7"
      "depth (fld (buildHTMLUnbreakable exampleExt [exSymbol ''a'' [''mord''] [] 7 2] [])) = 2"
    by (simp_all add: unbreakable_shape makeSpan_def sized_def exampleExt_def exSymbol_def
        newSpan_def)
  have c: "showInt 9 = ''9''"
    by code_simp
  have d: "showInt (- 2) = ''-2''"
    by code_simp
  show ?thesis
    using base_span_strut [of exampleExt "[exSymbol ''a'' [''mord''] [] 7 2]" "[]"
        "[exSymbol ''a'' [''mord''] [] 7 2]"] a b c d
    by (simp add: Let_def exampleExt_def)
qed

subsection \<open>Markup of an image\<close>

text \<open>
  C8. \<^verbatim>\<open>Img.toMarkup\<close> on an image with source \<^verbatim>\<open>a.png\<close>, alternative text \<^verbatim>\<open>x\<close> and no
  style: the markup is \<^verbatim>\<open><img  src='a.png 'alt='x' '/>\<close>, whatever \<^verbatim>\<open>escape\<close> and
  \<^verbatim>\<open>hyphenate\<close> are (neither is applied to the source or to the alternative text). It
  holds five single quotes, so the quotes of its attributes cannot pair up.
\<close>

theorem Img_toMarkup_quotes:
  \<open>Img_toMarkup escape hyphenate ''a.png'' ''x'' []
     = ''<img  src='' @ [CHR 0x27] @ ''a.png '' @ [CHR 0x27] @ ''alt='' @ [CHR 0x27] @ ''x''
         @ [CHR 0x27] @ '' '' @ [CHR 0x27] @ ''/>''
   \<and> length (filter (\<lambda>c. c = CHR 0x27)
         (Img_toMarkup escape hyphenate ''a.png'' ''x'' [])) = 5\<close>
  by (simp add: Img_toMarkup_def stylesOf_def)

subsection \<open>href: the semantic builder\<close>

lemma setProp_map_of [simp]: "map_of (setProp k v ps) k = Some v"
  by (induction ps) auto

lemma href_mathml_on_math_node:
  assumes "buildExpressionRow body options st = (math, st1)"
    and "mobjs st1 math = Some (MathNode t c a)"
  shows "\<exists>st'. href_mathmlBuilder buildExpressionRow m url body options st = (math, st')
           \<and> mathGetAttribute st' math ''href'' = Some url"
  using assms
  by (simp add: href_mathmlBuilder_def mathSetAttribute_def mathGetAttribute_def)

text \<open>
  C9. The href builder on a body that builds to a single text node (the object 0 of the
  store): it makes an \<^verbatim>\<open>mrow\<close> around it (the object 1), sets \<^verbatim>\<open>href\<close> on that row, and
  returns the object 0, which carries no attribute.
\<close>

theorem href_mathml_text_node:
  "href_mathmlBuilder exampleTextRow Math ''https://x'' [Textord Text ''y''] ()
       \<lparr>mobjs = Map.empty, mnext = 0\<rparr>
     = (0, \<lparr>mobjs = [0 \<mapsto> TextNode ''y'',
                      1 \<mapsto> MathNode ''mrow'' [0] [(''href'', ''https://x'')]],
            mnext = 2\<rparr>)
   \<and> mathGetAttribute
         (snd (href_mathmlBuilder exampleTextRow Math ''https://x'' [Textord Text ''y''] ()
                 \<lparr>mobjs = Map.empty, mnext = 0\<rparr>)) 0 ''href'' = None"
  by (simp add: href_mathmlBuilder_def exampleTextRow_def mathSetAttribute_def
      mathGetAttribute_def)

subsection \<open>Errors\<close>

lemma cancelAndSpace_no_throw: "cancelAndSpace X expression options surrounding groups \<noteq> Throw e"
  by (simp add: cancelAndSpace_def Let_def split: prod.splits option.splits list.splits
      pnode.splits)

lemma resizeMiddles_throw:
  "throwsOnlyParseErrors X \<Longrightarrow> resizeMiddles X m H D ns = Throw e \<Longrightarrow> isParseError e"
proof (induction ns)
  case Nil
  then show ?case by simp
next
  case (Cons n ns)
  then show ?case
    by (auto simp: throwsOnlyParseErrors_def split: result.splits option.splits)
qed

lemma leftrightDelims_throw:
  assumes X: "throwsOnlyParseErrors X"
    and t: "leftrightDelims X m left right options inner = Throw e"
  shows "isParseError e"
proof -
  have L: "\<And>delim h d opts cs. leftRightDelim X delim h d opts m cs = Throw e \<Longrightarrow> isParseError e"
    using X unfolding throwsOnlyParseErrors_def by blast
  have R: "\<And>H D. resizeMiddles X m H D inner = Throw e \<Longrightarrow> isParseError e"
    using resizeMiddles_throw [OF X] .
  from t show ?thesis
    unfolding leftrightDelims_def Let_def
    by (auto split: prod.splits result.splits if_splits dest: L R)
qed

lemma registered_throw:
  "throwsOnlyParseErrors X \<Longrightarrow> registered X g options = Throw e \<Longrightarrow>
     isParseError e \<or> e = assertParsedError"
  by (auto simp: registered_def throwsOnlyParseErrors_def unknownType_def isParseError_def
      split: option.splits)

lemma builders_throw:
  assumes X: "throwsOnlyParseErrors X"
  shows "buildGroups X gs options = Throw e \<longrightarrow> isParseError e \<or> e = assertParsedError"
    and "buildExpression X expression options isRealGroup surrounding = Throw e \<longrightarrow>
           isParseError e \<or> e = assertParsedError"
    and "buildGroup X og options baseOptions = Throw e \<longrightarrow> isParseError e \<or> e = assertParsedError"
    and "groupBuilder X g options = Throw e \<longrightarrow> isParseError e \<or> e = assertParsedError"
  using X
proof (induction X gs options and X expression options isRealGroup surrounding
    and X og options baseOptions and X g options
    rule: buildGroups_buildExpression_buildGroup_groupBuilder.induct)
  case (1 X options)
  then show ?case by simp
next
  case (2 X g gs options)
  then show ?case by (auto split: result.splits)
next
  case (3 X expression options isRealGroup surrounding)
  then show ?case
    by (auto simp: cancelAndSpace_no_throw split: result.splits if_splits)
next
  case (4 X options baseOptions)
  then show ?case by simp
next
  case (5 X group' options baseOptions)
  then show ?case
    by (auto simp: unknownType_def isParseError_def split: result.splits if_splits)
next
  case (6 X m family text' options)
  then show ?case by simp
next
  case (7 X m text' options)
  then show ?case by (auto simp: throwsOnlyParseErrors_def)
next
  case (8 X m text' options)
  then show ?case by (auto simp: throwsOnlyParseErrors_def)
next
  case (9 X m color' body options)
  then show ?case by (auto split: result.splits)
next
  case (10 X m href' body options)
  then show ?case by (auto split: result.splits)
next
  case (11 X m left right options)
  then show ?case by (simp add: assertParsedError_def)
next
  case (12 X m body left right options)
  then show ?case by (auto split: result.splits dest: leftrightDelims_throw)
next
  case (13 X m delim options)
  then show ?case by (auto simp: middleBuilder_def throwsOnlyParseErrors_def split: result.splits if_splits)
next
  case (14 X m size' mclass delim options)
  then show ?case by (auto simp: delimsizingBuilder_def throwsOnlyParseErrors_def split: if_splits)
next
  case (15 X m size' body options)
  then show ?case by (auto dest: registered_throw)
next
  case (16 X m style' body options)
  then show ?case by (auto dest: registered_throw)
next
  case (17 X m body tag' options)
  then show ?case by (auto dest: registered_throw)
next
  case (18 X m text' options)
  then show ?case by (auto dest: registered_throw)
next
  case (19 X m text' options)
  then show ?case by (auto dest: registered_throw)
next
  case (20 X m text' options)
  then show ?case by (auto dest: registered_throw)
next
  case (21 X m color' options)
  then show ?case by (auto dest: registered_throw)
next
  case (22 X m url' options)
  then show ?case by (auto dest: registered_throw)
next
  case (23 X m body font options)
  then show ?case by (auto dest: registered_throw)
next
  case (24 X m delim options)
  then show ?case by (auto dest: registered_throw)
next
  case (25 X t m options)
  then show ?case by (auto dest: registered_throw)
qed

lemma buildHTML_throw:
  assumes X: "throwsOnlyParseErrors X" and t: "buildHTML X tree options = Throw e"
  shows "isParseError e \<or> e = assertParsedError"
proof -
  have "\<And>ex. buildExpression X ex options True (None, None) = Throw e \<Longrightarrow>
          isParseError e \<or> e = assertParsedError"
    using builders_throw(2) [OF X] by simp
  with t show ?thesis
    unfolding buildHTML_def Let_def
    by (auto simp: unbreakable_shape split: prod.splits result.splits option.splits list.splits)
qed

text \<open>The checks: when they throw, and what.\<close>

lemma assertNodeType_cases:
  "((\<forall>n. node = Some n \<longrightarrow> typeOf n \<noteq> type') \<longrightarrow>
      (\<exists>msg. assertNodeType node type' = Throw (Error msg)))
   \<and> (\<forall>n. node = Some n \<and> typeOf n = type' \<longrightarrow> assertNodeType node type' = Ok n)"
  by (cases node) (simp_all add: assertNodeType_def checkNodeType_def)

lemma assertNodeType_throw: "assertNodeType node type' = Throw e \<Longrightarrow> isPlainError e"
  by (auto simp: assertNodeType_def isPlainError_def split: option.splits)

lemma assertAtomFamily_cases:
  "((\<forall>n. node = Some n \<longrightarrow> typeOf n \<noteq> ''atom'' \<or> familyOf n \<noteq> family) \<longrightarrow>
      (\<exists>msg. assertAtomFamily node family = Throw (Error msg)))
   \<and> (\<forall>n. node = Some n \<and> typeOf n = ''atom'' \<and> familyOf n = family \<longrightarrow>
          assertAtomFamily node family = Ok n)"
  by (cases node) (auto simp: assertAtomFamily_def checkAtomFamily_def)

lemma assertSymbolNodeType_cases:
  "((\<forall>n. node = Some n \<longrightarrow>
        typeOf n \<notin> set [''atom'', ''accent-token'', ''mathord'', ''op-token'', ''spacing'',
                          ''textord'']) \<longrightarrow>
      (\<exists>msg. assertSymbolNodeType node = Throw (Error msg)))
   \<and> (\<forall>n. node = Some n
          \<and> typeOf n \<in> set [''atom'', ''accent-token'', ''mathord'', ''op-token'', ''spacing'',
                             ''textord''] \<longrightarrow>
          assertSymbolNodeType node = Ok n)"
  by (cases node) (auto simp: assertSymbolNodeType_def checkSymbolNodeType_def NON_ATOMS_def)

lemma assertSymbolDomNode_cases:
  "((\<forall>t. kind (fld group') \<noteq> SymbolNode t) \<longrightarrow>
      (\<exists>msg. assertSymbolDomNode group' = Throw (Error msg)))
   \<and> ((\<exists>t. kind (fld group') = SymbolNode t) \<longrightarrow> assertSymbolDomNode group' = Ok group')"
  by (auto simp: assertSymbolDomNode_def split: nodeKind.splits)

lemma assertSpan_cases:
  "(kind (fld group') \<noteq> Span \<longrightarrow> (\<exists>msg. assertSpan group' = Throw (Error msg)))
   \<and> (kind (fld group') = Span \<longrightarrow> assertSpan group' = Ok group')"
  by (auto simp: assertSpan_def split: nodeKind.splits)

text \<open>The handlers.\<close>

lemma checkDelimiter_throw: "checkDelimiter P delim funcName = Throw e \<Longrightarrow> isParseError e"
  by (auto simp: checkDelimiter_def isParseError_def split: option.splits if_splits)

lemma delimiter_handlers_throw:
  "delimsizingHandler P parser sizeName arg0 = Throw e
     \<or> rightHandler P parser funcName arg0 = Throw e
     \<or> middleHandler P parser funcName arg0 = Throw e \<Longrightarrow> isParseError e"
  by (auto simp: delimsizingHandler_def rightHandler_def middleHandler_def isParseError_def
      split: result.splits if_splits dest: checkDelimiter_throw)

lemma argument_handlers_throw:
  "textcolorHandler P parser arg0 arg1 = Throw e
     \<or> hrefHandler P parser arg0 arg1 = Throw e
     \<or> urlHandler P parser arg0 = Throw e \<Longrightarrow> isPlainError e"
  by (auto simp: textcolorHandler_def hrefHandler_def urlHandler_def Let_def
      split: result.splits dest: assertNodeType_throw)

lemma colorHandler_throw:
  "colorHandler P parser breakOnTokenText arg0 = Throw e \<Longrightarrow>
     isPlainError e \<or> (\<exists>q. parseExpression P q True breakOnTokenText = Throw e)"
  by (auto simp: colorHandler_def split: result.splits prod.splits dest: assertNodeType_throw)

lemma leftHandler_throw:
  "leftHandler P parser funcName arg0 = Throw e \<Longrightarrow>
     isParseError e \<or> isPlainError e
     \<or> (\<exists>q. parseExpression P q False None = Throw e)
     \<or> (\<exists>q. expect P q (ctl ''right'') False = Throw e)
     \<or> (\<exists>q. parseFunction P q = Throw e)"
  unfolding leftHandler_def Let_def
  by (auto split: result.splits prod.splits dest: assertNodeType_throw checkDelimiter_throw)

lemma wrong_argument_throws:
  "(typeOf arg0 \<noteq> ''color-token'' \<longrightarrow>
      (\<exists>msg. textcolorHandler P parser arg0 arg1 = Throw (Error msg))
      \<and> (\<exists>msg. colorHandler P parser breakOnTokenText arg0 = Throw (Error msg)))
   \<and> (typeOf arg0 \<noteq> ''url'' \<longrightarrow>
        (\<exists>msg. hrefHandler P parser arg0 arg1 = Throw (Error msg))
        \<and> (\<exists>msg. urlHandler P parser arg0 = Throw (Error msg)))"
  by (simp add: textcolorHandler_def colorHandler_def hrefHandler_def urlHandler_def
      assertNodeType_def checkNodeType_def)

lemma right_argument_returns:
  "(typeOf arg0 = ''color-token'' \<longrightarrow>
      textcolorHandler P parser arg0 arg1
        = Ok (Color (mode P parser) (colorOf arg0) (ordargument P arg1)))
   \<and> (typeOf arg0 = ''url'' \<longrightarrow>
        hrefHandler P parser arg0 arg1
          = Ok (Href (mode P parser) (urlOf arg0) (ordargument P arg1)))"
  by (simp add: textcolorHandler_def hrefHandler_def assertNodeType_def checkNodeType_def)

lemma parseTree_throw:
  "parseTree P (JString s) settings = Throw e \<Longrightarrow>
     e = ParseError ([CHR 0x5C] @ ''tag works only in display equations'')
     \<or> (\<exists>p. parse P p = Throw e)"
  by (auto simp: parseTree_def Let_def split: result.splits if_splits prod.splits)

lemma builders_only_throw: "throwsOnlyParseErrors X \<longrightarrow>
        (\<forall>tree e. buildHTML X tree options = Throw e \<longrightarrow>
           isParseError e \<or> e = assertParsedError)
        \<and> (\<forall>expression isRealGroup surrounding e.
              buildExpression X expression options isRealGroup surrounding = Throw e \<longrightarrow>
                isParseError e \<or> e = assertParsedError)
        \<and> (\<forall>g baseOptions e. buildGroup X g options baseOptions = Throw e \<longrightarrow>
              isParseError e \<or> e = assertParsedError)"
proof (intro impI conjI allI)
  fix tree e
  assume "throwsOnlyParseErrors X" "buildHTML X tree options = Throw e"
  then show "isParseError e \<or> e = assertParsedError" by (rule buildHTML_throw)
next
  fix expression isRealGroup surrounding e
  assume X: "throwsOnlyParseErrors X"
    and t: "buildExpression X expression options isRealGroup surrounding = Throw e"
  show "isParseError e \<or> e = assertParsedError"
    using builders_throw(2) [OF X] t by simp
next
  fix g baseOptions e
  assume X: "throwsOnlyParseErrors X" and t: "buildGroup X g options baseOptions = Throw e"
  show "isParseError e \<or> e = assertParsedError"
    using builders_throw(3) [OF X] t by simp
qed

lemma handlers_throw: "\<forall>parser funcName sizeName breakOnTokenText arg0 arg1 e.
          (delimsizingHandler P parser sizeName arg0 = Throw e
             \<or> rightHandler P parser funcName arg0 = Throw e
             \<or> middleHandler P parser funcName arg0 = Throw e \<longrightarrow> isParseError e)
        \<and> (textcolorHandler P parser arg0 arg1 = Throw e
             \<or> hrefHandler P parser arg0 arg1 = Throw e
             \<or> urlHandler P parser arg0 = Throw e \<longrightarrow> isPlainError e)
        \<and> (colorHandler P parser breakOnTokenText arg0 = Throw e \<longrightarrow>
              isPlainError e \<or> (\<exists>q. parseExpression P q True breakOnTokenText = Throw e))
        \<and> (leftHandler P parser funcName arg0 = Throw e \<longrightarrow>
              isParseError e \<or> isPlainError e
              \<or> (\<exists>q. parseExpression P q False None = Throw e)
              \<or> (\<exists>q. expect P q (ctl ''right'') False = Throw e)
              \<or> (\<exists>q. parseFunction P q = Throw e))
        \<and> (typeOf arg0 \<noteq> ''color-token'' \<longrightarrow>
              (\<exists>msg. textcolorHandler P parser arg0 arg1 = Throw (Error msg))
              \<and> (\<exists>msg. colorHandler P parser breakOnTokenText arg0 = Throw (Error msg)))
        \<and> (typeOf arg0 \<noteq> ''url'' \<longrightarrow>
              (\<exists>msg. hrefHandler P parser arg0 arg1 = Throw (Error msg))
              \<and> (\<exists>msg. urlHandler P parser arg0 = Throw (Error msg)))
        \<and> (typeOf arg0 = ''color-token'' \<longrightarrow>
              textcolorHandler P parser arg0 arg1
                = Ok (Color (mode P parser) (colorOf arg0) (ordargument P arg1)))
        \<and> (typeOf arg0 = ''url'' \<longrightarrow>
              hrefHandler P parser arg0 arg1
                = Ok (Href (mode P parser) (urlOf arg0) (ordargument P arg1)))"
proof (intro allI conjI)
  fix parser funcName sizeName breakOnTokenText arg0 arg1 e
  show "delimsizingHandler P parser sizeName arg0 = Throw e
             \<or> rightHandler P parser funcName arg0 = Throw e
             \<or> middleHandler P parser funcName arg0 = Throw e \<longrightarrow> isParseError e"
    by (rule impI) (rule delimiter_handlers_throw)
  show "textcolorHandler P parser arg0 arg1 = Throw e
             \<or> hrefHandler P parser arg0 arg1 = Throw e
             \<or> urlHandler P parser arg0 = Throw e \<longrightarrow> isPlainError e"
    by (rule impI) (rule argument_handlers_throw)
  show "colorHandler P parser breakOnTokenText arg0 = Throw e \<longrightarrow>
              isPlainError e \<or> (\<exists>q. parseExpression P q True breakOnTokenText = Throw e)"
    by (rule impI) (rule colorHandler_throw)
  show "leftHandler P parser funcName arg0 = Throw e \<longrightarrow>
              isParseError e \<or> isPlainError e
              \<or> (\<exists>q. parseExpression P q False None = Throw e)
              \<or> (\<exists>q. expect P q (ctl ''right'') False = Throw e)
              \<or> (\<exists>q. parseFunction P q = Throw e)"
    by (rule impI) (rule leftHandler_throw)
  show "typeOf arg0 \<noteq> ''color-token'' \<longrightarrow>
              (\<exists>msg. textcolorHandler P parser arg0 arg1 = Throw (Error msg))
              \<and> (\<exists>msg. colorHandler P parser breakOnTokenText arg0 = Throw (Error msg))"
    by (rule wrong_argument_throws [THEN conjunct1])
  show "typeOf arg0 \<noteq> ''url'' \<longrightarrow>
              (\<exists>msg. hrefHandler P parser arg0 arg1 = Throw (Error msg))
              \<and> (\<exists>msg. urlHandler P parser arg0 = Throw (Error msg))"
    by (rule wrong_argument_throws [THEN conjunct2])
  show "typeOf arg0 = ''color-token'' \<longrightarrow>
              textcolorHandler P parser arg0 arg1
                = Ok (Color (mode P parser) (colorOf arg0) (ordargument P arg1))"
    by (rule right_argument_returns [THEN conjunct1])
  show "typeOf arg0 = ''url'' \<longrightarrow>
              hrefHandler P parser arg0 arg1
                = Ok (Href (mode P parser) (urlOf arg0) (ordargument P arg1))"
    by (rule right_argument_returns [THEN conjunct2])
qed

text \<open>
  C6, as the code has it. The conditions that the core reports are \<^verbatim>\<open>ParseError\<close>s: a tag
  outside display mode (\<^verbatim>\<open>parseTree\<close>), a group whose type has no builder (\<^verbatim>\<open>buildGroup\<close>),
  an invalid delimiter and a \<^verbatim>\<open>\middle\<close> without \<^verbatim>\<open>\left\<close> (the handlers of
  \<^verbatim>\<open>delimsizing.ts\<close>). The explicit checks throw something else: \<^verbatim>\<open>parseTree\<close> a \<^verbatim>\<open>TypeError\<close>
  for an input that is not a string, and \<^verbatim>\<open>assertParsed\<close> (the \<^verbatim>\<open>leftright\<close> builder, for a
  node without a parsed body), \<^verbatim>\<open>assertNodeType\<close>, \<^verbatim>\<open>assertAtomFamily\<close>,
  \<^verbatim>\<open>assertSymbolNodeType\<close>, \<^verbatim>\<open>assertSymbolDomNode\<close> and \<^verbatim>\<open>assertSpan\<close> a plain \<^verbatim>\<open>Error\<close>,
  each exactly when its check fails. \<^verbatim>\<open>assertNodeType\<close> is called by the handlers of
  \<^verbatim>\<open>\textcolor\<close>, \<^verbatim>\<open>\color\<close>, \<^verbatim>\<open>\href\<close>, \<^verbatim>\<open>\url\<close> and \<^verbatim>\<open>\left\<close>, which throw its \<^verbatim>\<open>Error\<close> when
  their argument is of another type. Apart from these, an error of \<^verbatim>\<open>parseTree\<close> on a
  string is one that \<^verbatim>\<open>parser.parse()\<close> throws; an error of a handler is one that the method
  of the parser it calls throws; and when the collaborators of the builders throw only
  \<^verbatim>\<open>ParseError\<close>s, every error of \<^verbatim>\<open>buildHTML\<close>, \<^verbatim>\<open>buildExpression\<close> and \<^verbatim>\<open>buildGroup\<close> is a
  \<^verbatim>\<open>ParseError\<close> or the error of \<^verbatim>\<open>assertParsed\<close>.
\<close>

theorem errors_of_the_core:
  "parseTree P JNotAString settings
     = Throw (TypeError ''KaTeX can only parse string typed expression'')
   \<and> groupBuilder X (Leftright m None left right) options = Throw assertParsedError
   \<and> (((\<forall>n. node = Some n \<longrightarrow> typeOf n \<noteq> type') \<longrightarrow>
          (\<exists>msg. assertNodeType node type' = Throw (Error msg)))
       \<and> (\<forall>n. node = Some n \<and> typeOf n = type' \<longrightarrow> assertNodeType node type' = Ok n))
   \<and> (((\<forall>n. node = Some n \<longrightarrow> typeOf n \<noteq> ''atom'' \<or> familyOf n \<noteq> family) \<longrightarrow>
          (\<exists>msg. assertAtomFamily node family = Throw (Error msg)))
       \<and> (\<forall>n. node = Some n \<and> typeOf n = ''atom'' \<and> familyOf n = family \<longrightarrow>
              assertAtomFamily node family = Ok n))
   \<and> (((\<forall>n. node = Some n \<longrightarrow>
            typeOf n \<notin> set [''atom'', ''accent-token'', ''mathord'', ''op-token'', ''spacing'',
                              ''textord'']) \<longrightarrow>
          (\<exists>msg. assertSymbolNodeType node = Throw (Error msg)))
       \<and> (\<forall>n. node = Some n
              \<and> typeOf n \<in> set [''atom'', ''accent-token'', ''mathord'', ''op-token'', ''spacing'',
                                 ''textord''] \<longrightarrow>
              assertSymbolNodeType node = Ok n))
   \<and> (((\<forall>t. kind (fld group') \<noteq> SymbolNode t) \<longrightarrow>
          (\<exists>msg. assertSymbolDomNode group' = Throw (Error msg)))
       \<and> ((\<exists>t. kind (fld group') = SymbolNode t) \<longrightarrow> assertSymbolDomNode group' = Ok group'))
   \<and> ((kind (fld group') \<noteq> Span \<longrightarrow> (\<exists>msg. assertSpan group' = Throw (Error msg)))
       \<and> (kind (fld group') = Span \<longrightarrow> assertSpan group' = Ok group'))
   \<and> (\<forall>s e. parseTree P (JString s) settings = Throw e \<longrightarrow>
          e = ParseError ([CHR 0x5C] @ ''tag works only in display equations'')
          \<or> (\<exists>p. parse P p = Throw e))
   \<and> (\<forall>parser funcName sizeName breakOnTokenText arg0 arg1 e.
          (delimsizingHandler P parser sizeName arg0 = Throw e
             \<or> rightHandler P parser funcName arg0 = Throw e
             \<or> middleHandler P parser funcName arg0 = Throw e \<longrightarrow> isParseError e)
        \<and> (textcolorHandler P parser arg0 arg1 = Throw e
             \<or> hrefHandler P parser arg0 arg1 = Throw e
             \<or> urlHandler P parser arg0 = Throw e \<longrightarrow> isPlainError e)
        \<and> (colorHandler P parser breakOnTokenText arg0 = Throw e \<longrightarrow>
              isPlainError e \<or> (\<exists>q. parseExpression P q True breakOnTokenText = Throw e))
        \<and> (leftHandler P parser funcName arg0 = Throw e \<longrightarrow>
              isParseError e \<or> isPlainError e
              \<or> (\<exists>q. parseExpression P q False None = Throw e)
              \<or> (\<exists>q. expect P q (ctl ''right'') False = Throw e)
              \<or> (\<exists>q. parseFunction P q = Throw e))
        \<and> (typeOf arg0 \<noteq> ''color-token'' \<longrightarrow>
              (\<exists>msg. textcolorHandler P parser arg0 arg1 = Throw (Error msg))
              \<and> (\<exists>msg. colorHandler P parser breakOnTokenText arg0 = Throw (Error msg)))
        \<and> (typeOf arg0 \<noteq> ''url'' \<longrightarrow>
              (\<exists>msg. hrefHandler P parser arg0 arg1 = Throw (Error msg))
              \<and> (\<exists>msg. urlHandler P parser arg0 = Throw (Error msg)))
        \<and> (typeOf arg0 = ''color-token'' \<longrightarrow>
              textcolorHandler P parser arg0 arg1
                = Ok (Color (mode P parser) (colorOf arg0) (ordargument P arg1)))
        \<and> (typeOf arg0 = ''url'' \<longrightarrow>
              hrefHandler P parser arg0 arg1
                = Ok (Href (mode P parser) (urlOf arg0) (ordargument P arg1))))
   \<and> (throwsOnlyParseErrors X \<longrightarrow>
        (\<forall>tree e. buildHTML X tree options = Throw e \<longrightarrow>
           isParseError e \<or> e = assertParsedError)
        \<and> (\<forall>expression isRealGroup surrounding e.
              buildExpression X expression options isRealGroup surrounding = Throw e \<longrightarrow>
                isParseError e \<or> e = assertParsedError)
        \<and> (\<forall>g baseOptions e. buildGroup X g options baseOptions = Throw e \<longrightarrow>
              isParseError e \<or> e = assertParsedError))
   \<and> (\<not> hasBuilder X g \<longrightarrow>
        buildGroup X (Some g) options baseOptions
          = Throw (ParseError (''Got group of unknown type: '' @ [CHR 0x27] @ typeOf g
                                 @ [CHR 0x27])))"
proof -
  have c1: "parseTree P JNotAString settings
          = Throw (TypeError ''KaTeX can only parse string typed expression'')"
    by (simp add: parseTree_def)
  have c2: "groupBuilder X (Leftright m None left right) options = Throw assertParsedError"
    by (simp add: assertParsedError_def)
  have c8: "\<forall>s e. parseTree P (JString s) settings = Throw e \<longrightarrow>
          e = ParseError ([CHR 0x5C] @ ''tag works only in display equations'')
          \<or> (\<exists>p. parse P p = Throw e)"
    by (intro allI impI) (rule parseTree_throw)
  have c11: "\<not> hasBuilder X g \<longrightarrow>
        buildGroup X (Some g) options baseOptions
          = Throw (ParseError (''Got group of unknown type: '' @ [CHR 0x27] @ typeOf g
                                 @ [CHR 0x27]))"
    by (simp add: unknownType_def)
  show ?thesis
    by (rule conjI [OF c1 conjI [OF c2 conjI [OF assertNodeType_cases
          conjI [OF assertAtomFamily_cases conjI [OF assertSymbolNodeType_cases
          conjI [OF assertSymbolDomNode_cases conjI [OF assertSpan_cases
          conjI [OF c8 conjI [OF handlers_throw conjI [OF builders_only_throw c11]]]]]]]]]])
qed

lemma exampleExt_throws: "throwsOnlyParseErrors exampleExt"
  by (simp add: throwsOnlyParseErrors_def exampleExt_def)

theorem errors_of_the_core_witness:
  "parseTree exampleParser (JString ''x'') True = Throw (ParseError ''Unexpected character'')
   \<and> (\<exists>p. parse exampleParser p = Throw (ParseError ''Unexpected character''))
   \<and> buildGroup exampleExt (Some (AccentToken Math ''^'')) [] None
        = Throw (ParseError (''Got group of unknown type: '' @ [CHR 0x27] @ ''accent-token''
                               @ [CHR 0x27]))
   \<and> isParseError (ParseError (''Got group of unknown type: '' @ [CHR 0x27] @ ''accent-token''
                            @ [CHR 0x27]))
   \<and> buildGroup exampleExt (Some (Leftright Math None ''('' '')'')) [] None
        = Throw assertParsedError
   \<and> (\<exists>msg. assertNodeType (Some (Color Math ''red'' [])) ''url'' = Throw (Error msg))
   \<and> (\<exists>msg. assertAtomFamily (Some (Color Math ''red'' [])) ''rel'' = Throw (Error msg))
   \<and> (\<exists>msg. assertSymbolNodeType (Some (Color Math ''red'' [])) = Throw (Error msg))
   \<and> (\<exists>msg. assertSymbolDomNode (makeFragment exampleExt []) = Throw (Error msg))
   \<and> (\<exists>msg. assertSpan (makeFragment exampleExt []) = Throw (Error msg))
   \<and> (\<exists>msg. hrefHandler exampleParser [] (Mathord Math ''x'') (Mathord Math ''y'')
                = Throw (Error msg))
   \<and> (\<exists>msg. textcolorHandler exampleParser [] (Mathord Math ''x'') (Mathord Math ''y'')
                = Throw (Error msg))
   \<and> middleHandler exampleParser [] (ctl ''middle'') (Textord Math ''|'')
        = Throw (ParseError (ctl ''middle without preceding '' @ ctl ''left''))
   \<and> isParseError (ParseError (ctl ''middle without preceding '' @ ctl ''left''))"
proof -
  note T = errors_of_the_core [where P = exampleParser and settings = True and X = exampleExt
      and m = Math and left = "''(''" and right = "'')''" and options = "[]"
      and node = "Some (Color Math ''red'' [])" and type' = "''url''" and family = "''rel''"
      and group' = "makeFragment exampleExt []" and g = "AccentToken Math ''^''"
      and baseOptions = None]
  note r2 = T [THEN conjunct2]
  note r3 = r2 [THEN conjunct2]
  note r4 = r3 [THEN conjunct2]
  note r5 = r4 [THEN conjunct2]
  note r6 = r5 [THEN conjunct2]
  note r7 = r6 [THEN conjunct2]
  note r8 = r7 [THEN conjunct2]
  note r9 = r8 [THEN conjunct2]
  note r10 = r9 [THEN conjunct2]
  have t: "parseTree exampleParser (JString ''x'') True
      = Throw (ParseError ''Unexpected character'')"
    by (simp add: parseTree_def exampleParser_def)
  have p: "\<exists>p. parse exampleParser p = Throw (ParseError ''Unexpected character'')"
    using r8 [THEN conjunct1, THEN spec [of _ "''x''"],
        THEN spec [of _ "ParseError ''Unexpected character''"]] t
    by simp
  have nb: "\<not> hasBuilder exampleExt (AccentToken Math ''^'')"
    by (simp add: hasBuilder_def exampleExt_def)
  have u: "buildGroup exampleExt (Some (AccentToken Math ''^'')) [] None
        = Throw (ParseError (''Got group of unknown type: '' @ [CHR 0x27] @ ''accent-token''
                               @ [CHR 0x27]))"
    using r10 [THEN conjunct2] nb by (simp add: typeOf_def)
  have ue: "isParseError (ParseError (''Got group of unknown type: '' @ [CHR 0x27]
                            @ ''accent-token'' @ [CHR 0x27]))"
    using r10 [THEN conjunct1, THEN mp, OF exampleExt_throws, THEN conjunct2, THEN conjunct2,
        THEN spec [of _ "Some (AccentToken Math ''^'')"], THEN spec [of _ None],
        THEN spec [of _ "ParseError (''Got group of unknown type: '' @ [CHR 0x27]
                            @ ''accent-token'' @ [CHR 0x27])"], THEN mp, OF u]
    by (simp add: assertParsedError_def)
  have lr: "buildGroup exampleExt (Some (Leftright Math None ''('' '')'')) [] None
        = Throw assertParsedError"
    using r2 [THEN conjunct1] by (simp add: hasBuilder_def)
  have a1: "\<exists>msg. assertNodeType (Some (Color Math ''red'' [])) ''url'' = Throw (Error msg)"
    using r3 [THEN conjunct1, THEN conjunct1] by (simp add: typeOf_def)
  have a2: "\<exists>msg. assertAtomFamily (Some (Color Math ''red'' [])) ''rel'' = Throw (Error msg)"
    using r4 [THEN conjunct1, THEN conjunct1] by (simp add: typeOf_def)
  have a3: "\<exists>msg. assertSymbolNodeType (Some (Color Math ''red'' [])) = Throw (Error msg)"
    using r5 [THEN conjunct1, THEN conjunct1] by (simp add: typeOf_def)
  have k: "kind (fld (makeFragment exampleExt [])) = DocumentFragment"
    by (simp add: makeFragment_def sized_def newDocumentFragment_def split: prod.splits)
  have a4: "\<exists>msg. assertSymbolDomNode (makeFragment exampleExt []) = Throw (Error msg)"
    using r6 [THEN conjunct1, THEN conjunct1] k by simp
  have a5: "\<exists>msg. assertSpan (makeFragment exampleExt []) = Throw (Error msg)"
    using r7 [THEN conjunct1, THEN conjunct1] k by simp
  note h = r9 [THEN conjunct1, THEN spec [of _ "[]"], THEN spec [of _ "ctl ''middle''"],
      THEN spec [of _ F_big], THEN spec [of _ None]]
  note hx = h [THEN spec [of _ "Mathord Math ''x''"], THEN spec [of _ "Mathord Math ''y''"],
      THEN spec [of _ "ParseError []"]]
  have h1: "\<exists>msg. hrefHandler exampleParser [] (Mathord Math ''x'') (Mathord Math ''y'')
                = Throw (Error msg)"
    using hx [THEN conjunct2, THEN conjunct2, THEN conjunct2, THEN conjunct2, THEN conjunct2]
    by (simp add: typeOf_def)
  have h2: "\<exists>msg. textcolorHandler exampleParser [] (Mathord Math ''x'') (Mathord Math ''y'')
                = Throw (Error msg)"
    using hx [THEN conjunct2, THEN conjunct2, THEN conjunct2, THEN conjunct2, THEN conjunct1]
    by (simp add: typeOf_def)
  have md: "middleHandler exampleParser [] (ctl ''middle'') (Textord Math ''|'')
        = Throw (ParseError (ctl ''middle without preceding '' @ ctl ''left''))"
    by (simp add: middleHandler_def checkDelimiter_def checkSymbolNodeType_def typeOf_def
        NON_ATOMS_def delimiters_def exampleParser_def)
  have mpe: "isParseError (ParseError (ctl ''middle without preceding '' @ ctl ''left''))"
    using h [THEN spec [of _ "Textord Math ''|''"], THEN spec [of _ "Mathord Math ''y''"],
        THEN spec [of _ "ParseError (ctl ''middle without preceding '' @ ctl ''left'')"],
        THEN conjunct1] md
    by blast
  show ?thesis
    using t p u ue lr a1 a2 a3 a4 a5 h1 h2 md mpe by (intro conjI)
qed



text \<open>
  C6 as stated fails. For an input that is not a string \<^verbatim>\<open>parseTree\<close> throws a \<^verbatim>\<open>TypeError\<close>;
  for a \<^verbatim>\<open>leftright\<close> node without a body \<^verbatim>\<open>buildGroup\<close> throws a plain \<^verbatim>\<open>Error\<close>; so do the
  handler of \<^verbatim>\<open>\href\<close> for an argument that is not a URL, the handler of \<^verbatim>\<open>\left\<close> when the
  parser finds no function after the body, and each of the other checks when it fails.
  None of these is a \<^verbatim>\<open>ParseError\<close>.
\<close>

theorem errors_not_only_ParseError:
  "parseTree exampleParser JNotAString True
     = Throw (TypeError ''KaTeX can only parse string typed expression'')
   \<and> \<not> isParseError (TypeError ''KaTeX can only parse string typed expression'')
   \<and> buildGroup exampleExt (Some (Leftright Math None ''('' '')'')) [] None
        = Throw (Error ''Bug: The leftright ParseNode wasn't fully parsed.'')
   \<and> \<not> isParseError (Error ''Bug: The leftright ParseNode wasn't fully parsed.'')
   \<and> hrefHandler exampleParser [] (Mathord Math ''x'') (Mathord Math ''y'')
        = Throw (Error ''Expected node of type url, but got node of type mathord'')
   \<and> \<not> isParseError (Error ''Expected node of type url, but got node of type mathord'')
   \<and> leftHandler exampleParser [] (ctl ''left'') (Atom Math ''open'' ''('')
        = Throw (Error ''Expected node of type leftright-right, but got null'')
   \<and> \<not> isParseError (Error ''Expected node of type leftright-right, but got null'')
   \<and> assertAtomFamily (Some (Mathord Math ''x'')) ''rel''
        = Throw (Error (''Expected node of type '' @ [CHR 0x22] @ ''atom'' @ [CHR 0x22]
                        @ '' and family '' @ [CHR 0x22] @ ''rel'' @ [CHR 0x22]
                        @ '', but got node of type mathord''))
   \<and> assertSymbolNodeType None
        = Throw (Error ''Expected node of symbol group type, but got null'')
   \<and> assertSymbolDomNode (makeSpan exampleExt None None None None)
        = Throw (Error ''Expected symbolNode but got [object Object].'')
   \<and> assertSpan (exSymbol ''a'' [] [] 7 2)
        = Throw (Error ''Expected span<HtmlDomNode> but got [object Object].'')"
  by (simp add: parseTree_def isParseError_def hasBuilder_def hrefHandler_def leftHandler_def
      assertNodeType_def checkNodeType_def typeOf_def checkDelimiter_def
      checkSymbolNodeType_def NON_ATOMS_def delimiters_def exampleParser_def
      assertAtomFamily_def checkAtomFamily_def assertSymbolNodeType_def
      assertSymbolDomNode_def assertSpan_def makeSpan_def sized_def newSpan_def initNode_def
      exSymbol_def split: prod.splits)

subsection \<open>Expressions: the two passes of a real group\<close>

lemma buildExpression_real:
  assumes "glueOK X" "buildGroups X expression options = Ok groups"
  shows "buildExpression X expression options True surrounding
           = (case binCancelled X options surrounding groups of
                (left', mid, next') \<Rightarrow>
                  Ok (spacingSpec X (glueOptionsOf X expression options) left' mid next'))"
  using assms(2)
  by (simp add: cancelAndSpace_nodes [OF assms(1)] binCancelled_def Let_def
      passB_spaceBetween passB_cancelBin)

lemma binCancelled_atoms:
  "binCancelled X options surrounding groups = (left', mid, next') \<Longrightarrow>
     binsCancelled (Some (truthy (fst surrounding) ''leftmost'')) (map class0 (nonSpace mid))
       (Some (truthy (snd surrounding) ''rightmost''))"
proof -
  let ?L = "sentinel X options (fst surrounding) ''leftmost''"
  let ?R = "sentinel X options (snd surrounding) ''rightmost''"
  assume "binCancelled X options surrounding groups = (left', mid, next')"
  then have mid: "mid = travN cancelBin ?L groups (nextOf [?R] None)"
    by (simp add: binCancelled_def Let_def)
  have c: "case nextOf [?R] None of
             None \<Rightarrow> \<not> contains binRightCanceller (Some (truthy (snd surrounding) ''rightmost''))
           | Some r \<Rightarrow> class0 r = Some (truthy (snd surrounding) ''rightmost'')"
    using sentinel_class0 [of X options "snd surrounding" "''rightmost''"]
      sentinel_leaf [of X options "snd surrounding" "''rightmost''"]
    by (auto simp: nextOf_def nonSpace_Cons contains_def binRightCanceller_def)
  have "binsCancelled (class0 ?L)
          (map class0 (travN cancelBin ?L (nonSpace groups) (nextOf [?R] None)))
          (Some (truthy (snd surrounding) ''rightmost''))"
    by (rule bins_flat [OF c]) (auto intro: nonSpace_atoms)
  then show ?thesis by (simp add: mid nonSpace_travN_cancel sentinel_class0)
qed


lemma class0_cancel:
  "class0 (rcancel (lcancel p a) nxt) = class0 a \<or>
   class0 a = Some ''mbin'' \<and> class0 (rcancel (lcancel p a) nxt) = Some ''mord''"
  by (cases nxt) (auto simp: rcancel_def lcancel_def class0_setClass0)

lemma rewrites_flat:
  "\<forall>a \<in> set as. isAtom a \<Longrightarrow>
     list_all2 (\<lambda>c c'. c' = c \<or> c = Some ''mbin'' \<and> c' = Some ''mord'')
       (map class0 as) (map class0 (travN cancelBin p as nx))"
proof (induction as arbitrary: p)
  case Nil
  then show ?case by simp
next
  case (Cons a as)
  then show ?case
    using class0_cancel [of p a "nextOf as nx"] by (simp add: travN_cancel_atom)
qed

lemma binCancelled_rewrites:
  "binCancelled X options surrounding groups = (left', mid, next') \<Longrightarrow>
     list_all2 (\<lambda>c c'. c' = c \<or> c = Some ''mbin'' \<and> c' = Some ''mord'')
       (map class0 (nonSpace groups)) (map class0 (nonSpace mid))"
proof -
  assume "binCancelled X options surrounding groups = (left', mid, next')"
  then have "mid = travN cancelBin (sentinel X options (fst surrounding) ''leftmost'') groups
                     (nextOf [sentinel X options (snd surrounding) ''rightmost''] None)"
    by (simp add: binCancelled_def Let_def)
  then show ?thesis
    using rewrites_flat [of "nonSpace groups"] by (auto simp: nonSpace_travN_cancel intro: nonSpace_atoms)
qed


text \<open>
  C1. After \<^verbatim>\<open>buildExpression(expression, options, true, surrounding)\<close>: in the sequence of
  the nodes of the result that are neither spaces nor partial groups (the children of a
  partial group in its place), between the classes of the two sentinels, no node of first
  class \<^verbatim>\<open>mbin\<close> comes right after a left canceller or right before a right canceller;
  and the first classes of that sequence are those of the built nodes, except that an
  \<^verbatim>\<open>mbin\<close> may have become \<^verbatim>\<open>mord\<close>.
\<close>

theorem bin_cancellation_invariant:
  assumes "glueOK X" and "buildGroups X expression options = Ok groups"
  shows "\<exists>res. buildExpression X expression options True surrounding = Ok res \<and>
           binsCancelled (Some (truthy (fst surrounding) ''leftmost''))
             (map class0 (nonSpace res))
             (Some (truthy (snd surrounding) ''rightmost'')) \<and>
           list_all2 (\<lambda>c c'. c' = c \<or> c = Some ''mbin'' \<and> c' = Some ''mord'')
             (map class0 (nonSpace groups)) (map class0 (nonSpace res))"
proof -
  obtain left' mid next' where b: "binCancelled X options surrounding groups = (left', mid, next')"
    by (cases "binCancelled X options surrounding groups")
  have "buildExpression X expression options True surrounding
          = Ok (spacingSpec X (glueOptionsOf X expression options) left' mid next')"
    using buildExpression_real [OF assms, of surrounding] b by simp
  moreover have "nonSpace (spacingSpec X (glueOptionsOf X expression options) left' mid next')
                  = nonSpace mid"
    by (rule nonSpace_spacingSpec [OF assms(1)])
  ultimately show ?thesis using binCancelled_atoms [OF b] binCancelled_rewrites [OF b] by simp
qed

lemma exampleExt_glueOK: "glueOK exampleExt"
  by (simp add: glueOK_def exampleExt_def class0_def checkPartialGroup_def)

theorem bin_cancellation_invariant_witness:
  "\<exists>res. buildExpression exampleExt [Atom Math ''bin'' ''+'', Mathord Math ''b''] [] True
            (None, None) = Ok res \<and>
     binsCancelled (Some ''leftmost'') (map class0 (nonSpace res)) (Some ''rightmost'') \<and>
     list_all2 (\<lambda>c c'. c' = c \<or> c = Some ''mbin'' \<and> c' = Some ''mord'')
       [Some ''mbin'', Some ''mord''] (map class0 (nonSpace res))"
proof -
  have g: "buildGroups exampleExt [Atom Math ''bin'' ''+'', Mathord Math ''b''] []
          = Ok [exSymbol ''+'' [''mbin''] [] 7 2, exSymbol ''b'' [''mord''] [] 7 2]"
    by code_simp
  have n: "map class0 (nonSpace [exSymbol ''+'' [''mbin''] [] 7 2, exSymbol ''b'' [''mord''] [] 7 2])
             = [Some ''mbin'', Some ''mord'']"
    by code_simp
  from bin_cancellation_invariant [OF exampleExt_glueOK g, of "(None, None)"]
  show ?thesis unfolding n by (simp add: truthy_def)
qed

text \<open>
  C2. For a real group, \<^verbatim>\<open>buildExpression\<close> returns the list after the bin cancellation with
  the glue of the spacing pass in it: behind every node that the traversal visits, the
  glue for that node and the next one, of the width that \<^verbatim>\<open>tightSpacings\<close> (the next node
  has class \<^verbatim>\<open>mtight\<close>) or \<^verbatim>\<open>spacings\<close> gives for their two atom classes when both are
  non-null and the entry is defined, and no other glue; the glue is built with the options
  \<open>glueOptionsOf\<close>, those of the single sizing or styling node of the expression.
\<close>

theorem spacing_pass_refines:
  assumes "glueOK X" and "buildGroups X expression options = Ok groups"
  shows "buildExpression X expression options True surrounding
           = (case binCancelled X options surrounding groups of
                (left', mid, next') \<Rightarrow>
                  Ok (spacingSpec X (glueOptionsOf X expression options) left' mid next'))"
  using assms by (rule buildExpression_real)

theorem spacing_pass_refines_witness:
  "buildExpression exampleExt [Mathord Math ''a'', Atom Math ''bin'' ''+'', Mathord Math ''b''] []
     True (None, None)
   = Ok [exSymbol ''a'' [''mord''] [] 7 2, makeGlue exampleExt (4, ''mu'') [],
         exSymbol ''+'' [''mbin''] [] 7 2, makeGlue exampleExt (4, ''mu'') [],
         exSymbol ''b'' [''mord''] [] 7 2]"
proof -
  have bg: "buildGroups exampleExt
              [Mathord Math ''a'', Atom Math ''bin'' ''+'', Mathord Math ''b''] []
            = Ok [exSymbol ''a'' [''mord''] [] 7 2, exSymbol ''+'' [''mbin''] [] 7 2,
                  exSymbol ''b'' [''mord''] [] 7 2]"
    by code_simp
  have rhs: "(case binCancelled exampleExt [] (None, None)
                     [exSymbol ''a'' [''mord''] [] 7 2, exSymbol ''+'' [''mbin''] [] 7 2,
                      exSymbol ''b'' [''mord''] [] 7 2] of
                (left', mid, next') \<Rightarrow>
                  Ok (spacingSpec exampleExt
                        (glueOptionsOf exampleExt
                           [Mathord Math ''a'', Atom Math ''bin'' ''+'', Mathord Math ''b''] [])
                        left' mid next'))
             = Ok [exSymbol ''a'' [''mord''] [] 7 2, makeGlue exampleExt (4, ''mu'') [],
                   exSymbol ''+'' [''mbin''] [] 7 2, makeGlue exampleExt (4, ''mu'') [],
                   exSymbol ''b'' [''mord''] [] 7 2]"
    by code_simp
  show ?thesis
    using spacing_pass_refines [OF exampleExt_glueOK bg, of "(None, None)"] rhs by simp
qed

subsection \<open>Partial groups and the colour\<close>

lemma flat_Cons:
  "flat (n # ns) = (if checkPartialGroup n then flat (children n) @ flat ns else n # flat ns)"
  by (cases n) simp

lemma flat_append [simp]: "flat (F @ G) = flat F @ flat G"
  by (induction F rule: flat.induct) auto

lemma nonSpace_flat [simp]: "nonSpace (flat F) = nonSpace F"
  by (induction F rule: flat.induct) (auto simp: nonSpace_Cons)

lemma nextOf_flat [simp]: "nextOf (flat F) nx = nextOf F nx"
  by (simp add: nextOf_def)

lemma flat_leaves: "\<forall>x \<in> set xs. \<not> checkPartialGroup x \<Longrightarrow> flat xs = xs"
  by (induction xs) (auto simp: flat_Cons)

lemma after_leaves:
  assumes "good cb" "\<not> checkPartialGroup n1"
  shows "\<forall>x \<in> set (after cb n1 nx). \<not> checkPartialGroup x"
proof (cases nx)
  case None
  then show ?thesis using assms(2) by (simp add: after_def)
next
  case (Some b)
  obtain x y z where c: "cb b n1 = (x, y, z)" by (cases "cb b n1")
  then have "\<not> checkPartialGroup y" "\<forall>g. z = Some g \<longrightarrow> \<not> checkPartialGroup g"
    using assms unfolding good_def by blast+
  then show ?thesis using Some c by (cases z) (auto simp: after_def)
qed

lemma flat_travN:
  assumes "good cb"
  shows "flat (travN cb p F nx) = travN cb p (flat F) nx"
proof (induction F arbitrary: p nx rule: flat.induct)
  case 1
  then show ?case by simp
next
  case (2 f cs ns)
  let ?n = "Node f cs"
  show ?case
  proof (cases "checkPartialGroup ?n")
    case True
    then show ?thesis
      using 2 by (simp add: travN_append checkPartialGroup_Node)
  next
    case False
    note np = False
    show ?thesis
    proof (cases "class0 ?n = Some ''mspace''")
      case True
      then show ?thesis using 2 np by simp
    next
      case False
      have "\<forall>x \<in> set (after cb (own cb p ?n) (nextOf ns nx)). \<not> checkPartialGroup x"
        by (intro after_leaves [OF assms] own_leaf [OF assms] np)
      then show ?thesis
        using 2(3) [OF np] np False by (simp add: flat_leaves)
    qed
  qed
qed

lemma makeFragment_shape:
  "kind (fld (makeFragment X elements)) = DocumentFragment"
  "children (makeFragment X elements) = elements"
  by (simp_all add: makeFragment_def newDocumentFragment_def)

lemma buildGroups_color:
  assumes "buildGroups X body (withColor X options color') = Ok elements"
    and "buildGroups X rest options = Ok groups"
  shows "buildGroups X (Color m color' body # rest) options = Ok (elements @ groups)"
  using assms by (simp add: hasBuilder_def sizeChange_def makeFragment_shape)

lemma dpB_cancelBin_keep:
  assumes "class0 left \<noteq> Some ''mbin''"
  shows "dpB cancelBin left F nx = left"
  using assms by (auto simp: dpB_def cancelBin_def Let_def split: option.splits)

lemma specGlue_none: "getTypeOfDomTree prev = None \<Longrightarrow> specGlue X glueOptions prev cur = None"
  by (simp add: specGlue_def)

lemma spacingSpec_nofront:
  assumes "getTypeOfDomTree left = None"
  shows "spacingSpec X glueOptions left F nx = travN (spaceBetween X glueOptions) left F nx"
proof (cases "nextOf F nx")
  case None
  then have "nonSpace F = []" by (cases "nonSpace F") (simp_all add: nextOf_def)
  then show ?thesis using None by (simp add: spacingSpec_def travN_noatoms)
next
  case (Some a)
  then show ?thesis
    using specGlue_none [OF assms] by (simp add: spacingSpec_def travN_spaceBetween)
qed

lemma passes_flat:
  assumes g: "glueOK X" and l: "truthy (fst surrounding) ''leftmost'' \<notin> set DomEnum"
  shows "\<exists>res. cancelAndSpace X expression options surrounding groups = Ok res \<and>
           cancelAndSpace X expression options surrounding (flat groups) = Ok (flat res)"
proof -
  let ?L = "sentinel X options (fst surrounding) ''leftmost''"
  let ?R = "sentinel X options (snd surrounding) ''rightmost''"
  let ?go = "glueOptionsOf X expression options"
  let ?nx = "nextOf [?R] None"
  have cl: "class0 ?L = Some (truthy (fst surrounding) ''leftmost'')" by (rule sentinel_class0)
  then have nb: "class0 ?L \<noteq> Some ''mbin''" using l by (auto simp: DomEnum_def)
  have gt: "getTypeOfDomTree ?L = None" using cl l by (simp add: getTypeOfDomTree_def)
  have dp: "dpB cancelBin ?L G ?nx = ?L" for G by (rule dpB_cancelBin_keep [OF nb])
  have lb: "lastB cancelBin ?L (flat groups) ?R = lastB cancelBin ?L groups ?R"
    by (simp add: lastB_def)
  have eq: "cancelAndSpace X expression options surrounding G
         = Ok (travN (spaceBetween X ?go) ?L (travN cancelBin ?L G ?nx)
                 (nextOf [lastB cancelBin ?L G ?R] None))" for G
    unfolding cancelAndSpace_nodes [OF g] dp passB_spaceBetween passB_cancelBin
      spacingSpec_nofront [OF gt] ..
  show ?thesis
    unfolding eq lb
    by (simp add: flat_travN [OF good_cancelBin] flat_travN [OF good_spaceBetween [OF g]])
qed

text \<open>
  C7. The builder of a \<^verbatim>\<open>color\<close> node builds the body with \<^verbatim>\<open>isRealGroup = false\<close> and the
  colour set, and returns the fragment of the elements; with \<^verbatim>\<open>isRealGroup = false\<close>,
  \<^verbatim>\<open>buildExpression\<close> returns the built list as it is; the elements of a coloured body are
  elements of the list of the enclosing expression; and the two passes of a real group go
  through partial groups: on the list with every partial group replaced by its children
  they give the result with every partial group replaced by its children (when the left
  sentinel has no atom class, as \<^verbatim>\<open>leftmost\<close>). In the example, the glue between \<open>a\<close> and \<open>+\<close>
  is the same with and without the colour.
\<close>

theorem color_fragment_transparent:
  "groupBuilder X (Color m color' body) options
     = (case buildExpression X body (withColor X options color') False (None, None) of
          Ok elements \<Rightarrow> Ok (makeFragment X elements)
        | Throw e \<Rightarrow> Throw e
        | NoReturn \<Rightarrow> NoReturn)
   \<and> kind (fld (makeFragment X elements)) = DocumentFragment
   \<and> children (makeFragment X elements) = elements
   \<and> buildExpression X body options False surrounding = buildGroups X body options
   \<and> (buildGroups X body (withColor X options color') = Ok elements \<longrightarrow>
        buildGroups X rest options = Ok groups' \<longrightarrow>
        buildGroups X (Color m color' body # rest) options = Ok (elements @ groups'))
   \<and> (glueOK X \<longrightarrow> truthy (fst surrounding) ''leftmost'' \<notin> set DomEnum \<longrightarrow>
        (\<exists>res. cancelAndSpace X expression options surrounding groups = Ok res \<and>
               cancelAndSpace X expression options surrounding (flat groups) = Ok (flat res)))
   \<and> buildExpression exampleExt
        [Color Math ''red'' [Mathord Math ''a''], Atom Math ''bin'' ''+'', Mathord Math ''b''] []
        True (None, None)
      = Ok [exSymbol ''a'' [''mord''] ''red'' 7 2, makeGlue exampleExt (4, ''mu'') [],
            exSymbol ''+'' [''mbin''] [] 7 2, makeGlue exampleExt (4, ''mu'') [],
            exSymbol ''b'' [''mord''] [] 7 2]
   \<and> buildExpression exampleExt
        [Mathord Math ''a'', Atom Math ''bin'' ''+'', Mathord Math ''b''] [] True (None, None)
      = Ok [exSymbol ''a'' [''mord''] [] 7 2, makeGlue exampleExt (4, ''mu'') [],
            exSymbol ''+'' [''mbin''] [] 7 2, makeGlue exampleExt (4, ''mu'') [],
            exSymbol ''b'' [''mord''] [] 7 2]"
proof -
  have 1: "groupBuilder X (Color m color' body) options
     = (case buildExpression X body (withColor X options color') False (None, None) of
          Ok elements \<Rightarrow> Ok (makeFragment X elements)
        | Throw e \<Rightarrow> Throw e
        | NoReturn \<Rightarrow> NoReturn)"
    by simp
  have 2: "buildExpression X body options False surrounding = buildGroups X body options"
    by (cases "buildGroups X body options") simp_all
  have 3: "buildExpression exampleExt
        [Color Math ''red'' [Mathord Math ''a''], Atom Math ''bin'' ''+'', Mathord Math ''b''] []
        True (None, None)
      = Ok [exSymbol ''a'' [''mord''] ''red'' 7 2, makeGlue exampleExt (4, ''mu'') [],
            exSymbol ''+'' [''mbin''] [] 7 2, makeGlue exampleExt (4, ''mu'') [],
            exSymbol ''b'' [''mord''] [] 7 2]"
    by code_simp
  have 4: "buildExpression exampleExt
        [Mathord Math ''a'', Atom Math ''bin'' ''+'', Mathord Math ''b''] [] True (None, None)
      = Ok [exSymbol ''a'' [''mord''] [] 7 2, makeGlue exampleExt (4, ''mu'') [],
            exSymbol ''+'' [''mbin''] [] 7 2, makeGlue exampleExt (4, ''mu'') [],
            exSymbol ''b'' [''mord''] [] 7 2]"
    by code_simp
  show ?thesis
    using 1 2 3 4 makeFragment_shape [of X elements]
      buildGroups_color [of X body options color' elements rest groups' m]
      passes_flat [of X surrounding expression options groups]
    by blast
qed

theorem color_fragment_transparent_witness:
  "buildGroups exampleExt
     [Color Math ''red'' [Mathord Math ''a''], Atom Math ''bin'' ''+'', Mathord Math ''b''] []
   = Ok ([exSymbol ''a'' [''mord''] ''red'' 7 2]
         @ [exSymbol ''+'' [''mbin''] [] 7 2, exSymbol ''b'' [''mord''] [] 7 2])
   \<and> (\<exists>res. cancelAndSpace exampleExt [] [] (None, None)
               [makeFragment exampleExt [exSymbol ''a'' [''mord''] ''red'' 7 2],
                exSymbol ''+'' [''mbin''] [] 7 2, exSymbol ''b'' [''mord''] [] 7 2] = Ok res
          \<and> cancelAndSpace exampleExt [] [] (None, None)
               (flat [makeFragment exampleExt [exSymbol ''a'' [''mord''] ''red'' 7 2],
                      exSymbol ''+'' [''mbin''] [] 7 2, exSymbol ''b'' [''mord''] [] 7 2])
              = Ok (flat res))"
proof -
  have b: "buildGroups exampleExt [Mathord Math ''a''] (withColor exampleExt [] ''red'')
             = Ok [exSymbol ''a'' [''mord''] ''red'' 7 2]"
    by code_simp
  have r: "buildGroups exampleExt [Atom Math ''bin'' ''+'', Mathord Math ''b''] []
             = Ok [exSymbol ''+'' [''mbin''] [] 7 2, exSymbol ''b'' [''mord''] [] 7 2]"
    by code_simp
  have l: "truthy (fst (None, None)) ''leftmost'' \<notin> set DomEnum"
    by (simp add: truthy_def DomEnum_def)
  show ?thesis
    using color_fragment_transparent [where X = exampleExt and m = Math and color' = "''red''"
        and body = "[Mathord Math ''a'']" and options = "[]"
        and elements = "[exSymbol ''a'' [''mord''] ''red'' 7 2]"
        and rest = "[Atom Math ''bin'' ''+'', Mathord Math ''b'']"
        and groups' = "[exSymbol ''+'' [''mbin''] [] 7 2, exSymbol ''b'' [''mord''] [] 7 2]"
        and surrounding = "(None, None)" and expression = "[]"
        and groups = "[makeFragment exampleExt [exSymbol ''a'' [''mord''] ''red'' 7 2],
                exSymbol ''+'' [''mbin''] [] 7 2, exSymbol ''b'' [''mord''] [] 7 2]"]
      b r l exampleExt_glueOK
    by blast
qed

subsection \<open>The tag\<close>

lemma tag_child_strut_shape:
  assumes "buildHTML X [Tag m body tag'] options = Ok htmlNode"
  shows "\<exists>expression tagExpression tagChild strut.
           buildExpression X body options True (None, None) = Ok expression
         \<and> buildExpression X tag' options True (None, None) = Ok tagExpression
         \<and> hd (classes (fld htmlNode)) = ''katex-html''
         \<and> children htmlNode = chunks X options expression [] [] @ [tagChild]
         \<and> last (children htmlNode) = tagChild
         \<and> classes (fld tagChild) = [''tag'']
         \<and> children tagChild = strut # tagExpression
         \<and> style (fld strut)
              = [(''height'',
                  numStr X (numAdd X (height (fld htmlNode)) (depth (fld htmlNode))) @ ''em''),
                 (''verticalAlign'', numStr X (numNeg X (depth (fld htmlNode))) @ ''em'')]"
proof -
  from assms obtain expression where
    e: "buildExpression X body options True (None, None) = Ok expression"
    by (auto simp: buildHTML_def split: result.splits)
  from assms e obtain tagExpression where
    t: "buildExpression X tag' options True (None, None) = Ok tagExpression"
    by (auto simp: buildHTML_def Let_def split: result.splits)
  let ?s0 = "hd (children (buildHTMLUnbreakable X tagExpression options))"
  let ?root = "setAttribute ''aria-hidden'' ''true''
      (makeSpan X (Some [''katex-html''])
         (Some (chunks X options expression [] []
                  @ [setClasses [''tag''] (buildHTMLUnbreakable X tagExpression options)]))
         None None)"
  let ?strut = "setStyle ''verticalAlign'' (numStr X (numNeg X (depth (fld ?root))) @ ''em'')
      (setStyle ''height''
         (numStr X (numAdd X (height (fld ?root)) (depth (fld ?root))) @ ''em'') ?s0)"
  let ?tagChild = "setChildren (?strut # tagExpression)
      (setClasses [''tag''] (buildHTMLUnbreakable X tagExpression options))"
  have r: "htmlNode = setChildren (chunks X options expression [] [] @ [?tagChild]) ?root"
    using assms e t by (simp add: buildHTML_def Let_def unbreakable_shape)
  have s0: "style (fld ?s0)
      = [(''height'',
          numStr X (numAdd X (height (fld (buildHTMLUnbreakable X tagExpression options)))
                      (depth (fld (buildHTMLUnbreakable X tagExpression options)))) @ ''em''),
         (''verticalAlign'',
          numStr X (numNeg X (depth (fld (buildHTMLUnbreakable X tagExpression options)))) @ ''em'')]"
    using base_span_strut_shape [of X tagExpression options] by (simp add: Let_def)
  have "style (fld ?strut)
      = [(''height'', numStr X (numAdd X (height (fld htmlNode)) (depth (fld htmlNode))) @ ''em''),
         (''verticalAlign'', numStr X (numNeg X (depth (fld htmlNode))) @ ''em'')]"
    by (simp add: r s0)
  then show ?thesis
    using e t r by (intro exI [of _ expression] exI [of _ tagExpression] exI [of _ ?tagChild]
        exI [of _ ?strut]) simp
qed


lemma buildExpression_returns:
  assumes "glueOK X" "buildGroups X expression options = Ok groups"
  shows "\<exists>res. buildExpression X expression options True surrounding = Ok res"
  unfolding buildExpression_real [OF assms]
  by (cases "binCancelled X options surrounding groups") simp

lemma buildHTML_tag_returns:
  assumes g: "glueOK X"
    and b: "buildGroups X body options = Ok groups"
    and t: "buildGroups X tag' options = Ok tagGroups"
  shows "\<exists>htmlNode. buildHTML X [Tag m body tag'] options = Ok htmlNode"
proof -
  from buildExpression_returns [OF g b] obtain expression where
    e: "buildExpression X body options True (None, None) = Ok expression"
    by blast
  from buildExpression_returns [OF g t] obtain tagExpression where
    te: "buildExpression X tag' options True (None, None) = Ok tagExpression"
    by blast
  show ?thesis
    using e te by (simp add: buildHTML_def Let_def unbreakable_shape)
qed

text \<open>
  C5. When \<^verbatim>\<open>buildHTML\<close> returns for a tree that is one tag node, the root has first class
  \<^verbatim>\<open>katex-html\<close>, its children are the chunks of the body followed by exactly one more
  child, whose classes are \<^verbatim>\<open>["tag"]\<close> and whose children are a strut and the built tag;
  the styles of that strut are the height \<^verbatim>\<open>(htmlNode.height + htmlNode.depth) + "em"\<close> and
  the vertical alignment \<^verbatim>\<open>-htmlNode.depth + "em"\<close> of the root. And \<^verbatim>\<open>buildHTML\<close> does
  return for such a tree when the groups of the body and of the tag build and the glue is
  a glue span.
\<close>

theorem tag_child_strut:
  "(\<forall>htmlNode. buildHTML X [Tag m body tag'] options = Ok htmlNode \<longrightarrow>
      (\<exists>expression tagExpression tagChild strut.
           buildExpression X body options True (None, None) = Ok expression
         \<and> buildExpression X tag' options True (None, None) = Ok tagExpression
         \<and> hd (classes (fld htmlNode)) = ''katex-html''
         \<and> children htmlNode = chunks X options expression [] [] @ [tagChild]
         \<and> last (children htmlNode) = tagChild
         \<and> classes (fld tagChild) = [''tag'']
         \<and> children tagChild = strut # tagExpression
         \<and> style (fld strut)
              = [(''height'',
                  numStr X (numAdd X (height (fld htmlNode)) (depth (fld htmlNode))) @ ''em''),
                 (''verticalAlign'', numStr X (numNeg X (depth (fld htmlNode))) @ ''em'')]))
   \<and> (glueOK X \<and> (\<exists>groups. buildGroups X body options = Ok groups)
        \<and> (\<exists>tagGroups. buildGroups X tag' options = Ok tagGroups) \<longrightarrow>
        (\<exists>htmlNode. buildHTML X [Tag m body tag'] options = Ok htmlNode))"
proof (intro conjI allI impI)
  fix htmlNode
  assume "buildHTML X [Tag m body tag'] options = Ok htmlNode"
  then show "\<exists>expression tagExpression tagChild strut.
           buildExpression X body options True (None, None) = Ok expression
         \<and> buildExpression X tag' options True (None, None) = Ok tagExpression
         \<and> hd (classes (fld htmlNode)) = ''katex-html''
         \<and> children htmlNode = chunks X options expression [] [] @ [tagChild]
         \<and> last (children htmlNode) = tagChild
         \<and> classes (fld tagChild) = [''tag'']
         \<and> children tagChild = strut # tagExpression
         \<and> style (fld strut)
              = [(''height'',
                  numStr X (numAdd X (height (fld htmlNode)) (depth (fld htmlNode))) @ ''em''),
                 (''verticalAlign'', numStr X (numNeg X (depth (fld htmlNode))) @ ''em'')]"
    by (rule tag_child_strut_shape)
next
  assume "glueOK X \<and> (\<exists>groups. buildGroups X body options = Ok groups)
        \<and> (\<exists>tagGroups. buildGroups X tag' options = Ok tagGroups)"
  then obtain groups tagGroups where g: "glueOK X"
    and b: "buildGroups X body options = Ok groups"
    and t: "buildGroups X tag' options = Ok tagGroups"
    by blast
  show "\<exists>htmlNode. buildHTML X [Tag m body tag'] options = Ok htmlNode"
    by (rule buildHTML_tag_returns [OF g b t])
qed

theorem tag_child_strut_witness:
  "\<exists>htmlNode tagChild strut.
      buildHTML exampleExt [Tag Text [Mathord Math ''a''] [Textord Text ''1'']] [] = Ok htmlNode
    \<and> last (children htmlNode) = tagChild
    \<and> classes (fld tagChild) = [''tag'']
    \<and> hd (children tagChild) = strut
    \<and> style (fld strut)
         = [(''height'',
             numStr exampleExt (numAdd exampleExt (height (fld htmlNode)) (depth (fld htmlNode)))
               @ ''em''),
            (''verticalAlign'',
             numStr exampleExt (numNeg exampleExt (depth (fld htmlNode))) @ ''em'')]"
proof -
  note T = tag_child_strut [where X = exampleExt and m = Text and body = "[Mathord Math ''a'']"
      and tag' = "[Textord Text ''1'']" and options = "[]"]
  have b: "buildGroups exampleExt [Mathord Math ''a''] [] = Ok [exSymbol ''a'' [''mord''] [] 7 2]"
    by code_simp
  have t: "buildGroups exampleExt [Textord Text ''1''] [] = Ok [exSymbol ''1'' [''mord''] [] 7 2]"
    by code_simp
  from T [THEN conjunct2] exampleExt_glueOK b t obtain r where
    r: "buildHTML exampleExt [Tag Text [Mathord Math ''a''] [Textord Text ''1'']] [] = Ok r"
    by blast
  from T [THEN conjunct1, THEN spec, THEN mp, OF r] show ?thesis
    using r by fastforce
qed

subsection \<open>Delimiters\<close>

lemma innerExtent_eq:
  "innerExtent X ns h d hm
     = (foldl (\<lambda>acc n. numMax X (height (fld n)) acc) h
          (filter (\<lambda>n. isMiddle (fld n) = None) ns),
        foldl (\<lambda>acc n. numMax X (depth (fld n)) acc) d
          (filter (\<lambda>n. isMiddle (fld n) = None) ns),
        hm \<or> (\<exists>n \<in> set ns. isMiddle (fld n) \<noteq> None))"
  by (induction ns arbitrary: h d hm) auto

lemma resizeMiddles_nth:
  "resizeMiddles X m H D ns = Ok ms \<Longrightarrow>
     length ms = length ns
     \<and> (\<forall>i < length ns.
           case isMiddle (fld (ns ! i)) of
             Some (delim, opts) \<Rightarrow> leftRightDelim X delim H D opts m [] = Ok (ms ! i)
           | None \<Rightarrow> ms ! i = ns ! i)"
proof (induction ns arbitrary: ms)
  case Nil
  then show ?case by simp
next
  case (Cons n ns)
  from Cons.prems obtain m' ms' where
    m': "(case isMiddle (fld n) of
            Some (delim, opts) \<Rightarrow> leftRightDelim X delim H D opts m []
          | None \<Rightarrow> Ok n) = Ok m'"
    and ms': "resizeMiddles X m H D ns = Ok ms'" and ms: "ms = m' # ms'"
    by (auto split: result.splits)
  from Cons.IH [OF ms'] have ih: "length ms' = length ns"
    "\<forall>i < length ns.
       case isMiddle (fld (ns ! i)) of
         Some (delim, opts) \<Rightarrow> leftRightDelim X delim H D opts m [] = Ok (ms' ! i)
       | None \<Rightarrow> ms' ! i = ns ! i"
    by simp_all
  show ?case
  proof (intro conjI allI impI)
    show "length ms = length (n # ns)"
      using ih ms by simp
  next
    fix i
    assume "i < length (n # ns)"
    then show "case isMiddle (fld ((n # ns) ! i)) of
                 Some (delim, opts) \<Rightarrow> leftRightDelim X delim H D opts m [] = Ok (ms ! i)
               | None \<Rightarrow> ms ! i = (n # ns) ! i"
      using ih m' ms by (cases i) (auto split: option.splits)
  qed
qed


lemma leftright_builder_shape:
  assumes "groupBuilder X (Leftright m (Some body) left right) options = Ok r"
  shows "\<exists>inner leftDelim mids rightDelim.
           buildExpression X body options True (Some ''mopen'', Some ''mclose'') = Ok inner
         \<and> r = makeSpan X (Some [''minner'']) (Some (leftDelim # mids @ [rightDelim]))
                 (Some options) None
         \<and> hd (classes (fld r)) = ''minner''
         \<and> hd (children r) = leftDelim \<and> last (children r) = rightDelim
         \<and> (if left = ''.'' then leftDelim = makeNullDelimiter X options [''mopen'']
             else leftRightDelim X left
                    (numMul X (maxOver X height inner) (sizeMultiplier X options))
                    (numMul X (maxOver X depth inner) (sizeMultiplier X options))
                    options m [''mopen''] = Ok leftDelim)
         \<and> (if right = ''.'' then rightDelim = makeNullDelimiter X options [''mclose'']
             else leftRightDelim X right
                    (numMul X (maxOver X height inner) (sizeMultiplier X options))
                    (numMul X (maxOver X depth inner) (sizeMultiplier X options))
                    options m [''mclose''] = Ok rightDelim)
         \<and> length mids = length inner
         \<and> (\<forall>i < length inner.
               case isMiddle (fld (inner ! i)) of
                 Some (delim, opts) \<Rightarrow>
                   leftRightDelim X delim
                     (numMul X (maxOver X height inner) (sizeMultiplier X options))
                     (numMul X (maxOver X depth inner) (sizeMultiplier X options))
                     opts m [] = Ok (mids ! i)
               | None \<Rightarrow> mids ! i = inner ! i)
         \<and> (\<forall>delim d. delim \<noteq> ''.'' \<and> sizedDelim X delim 1 options m [] = Ok d \<longrightarrow>
               (\<exists>middleDelim. groupBuilder X (Middle m delim) options = Ok middleDelim
                  \<and> isMiddle (fld middleDelim) = Some (delim, options)))"
proof -
  let ?H = "numMul X (maxOver X height inner) (sizeMultiplier X options)"
  from assms obtain inner where
    inner: "buildExpression X body options True (Some ''mopen'', Some ''mclose'') = Ok inner"
    and d: "leftrightDelims X m left right options inner = Ok r"
    by (auto split: result.splits)
  let ?H = "numMul X (maxOver X height inner) (sizeMultiplier X options)"
  let ?D = "numMul X (maxOver X depth inner) (sizeMultiplier X options)"
  let ?hadMiddle = "\<exists>n \<in> set inner. isMiddle (fld n) \<noteq> None"
  have ext: "innerExtent X inner (num0 X) (num0 X) False
               = (maxOver X height inner, maxOver X depth inner, ?hadMiddle)"
    by (simp add: innerExtent_eq maxOver_def)
  from d ext obtain leftDelim where
    l: "(if left = ''.'' then Ok (makeNullDelimiter X options [''mopen''])
         else leftRightDelim X left ?H ?D options m [''mopen'']) = Ok leftDelim"
    by (auto simp: leftrightDelims_def Let_def split: result.splits)
  from d ext l obtain mids where
    mi: "(if ?hadMiddle then resizeMiddles X m ?H ?D inner else Ok inner) = Ok mids"
    by (auto simp: leftrightDelims_def Let_def split: result.splits)
  from d ext l mi obtain rightDelim where
    rd: "(if right = ''.'' then Ok (makeNullDelimiter X options [''mclose''])
          else leftRightDelim X right ?H ?D options m [''mclose'']) = Ok rightDelim"
    and r: "r = makeSpan X (Some [''minner'']) (Some ((leftDelim # mids) @ [rightDelim]))
                  (Some options) None"
    by (auto simp: leftrightDelims_def Let_def split: result.splits)
  have mids: "length mids = length inner
      \<and> (\<forall>i < length inner.
            case isMiddle (fld (inner ! i)) of
              Some (delim, opts) \<Rightarrow> leftRightDelim X delim ?H ?D opts m [] = Ok (mids ! i)
            | None \<Rightarrow> mids ! i = inner ! i)"
  proof (cases ?hadMiddle)
    case True
    with mi have "resizeMiddles X m ?H ?D inner = Ok mids" by simp
    from resizeMiddles_nth [OF this] show ?thesis .
  next
    case False
    with mi have "mids = inner" by simp
    with False show ?thesis by (auto split: option.splits)
  qed
  have mid: "\<forall>delim d. delim \<noteq> ''.'' \<and> sizedDelim X delim 1 options m [] = Ok d \<longrightarrow>
               (\<exists>middleDelim. groupBuilder X (Middle m delim) options = Ok middleDelim
                  \<and> isMiddle (fld middleDelim) = Some (delim, options))"
    by (simp add: middleBuilder_def)
  have cls: "hd (classes (fld r)) = ''minner''"
    by (simp add: r)
  show ?thesis
    apply (rule exI [of _ inner], rule exI [of _ leftDelim], rule exI [of _ mids],
        rule exI [of _ rightDelim])
    using inner r cls l rd mids mid
    by (simp split: if_splits)
qed

lemma resizeMiddles_returns:
  assumes "\<forall>delim h d opts cs. \<exists>x. leftRightDelim X delim h d opts m cs = Ok x"
  shows "\<exists>ms. resizeMiddles X m H D ns = Ok ms"
proof (induction ns)
  case Nil
  then show ?case by simp
next
  case (Cons n ns)
  then obtain ms where ms: "resizeMiddles X m H D ns = Ok ms"
    by blast
  show ?case
  proof (cases "isMiddle (fld n)")
    case None
    then show ?thesis using ms by simp
  next
    case (Some a)
    obtain delim opts where a: "a = (delim, opts)"
      by (cases a)
    from assms obtain x where "leftRightDelim X delim H D opts m [] = Ok x"
      by blast
    then show ?thesis using ms Some a by simp
  qed
qed

lemma leftrightDelims_returns:
  assumes L: "\<forall>delim h d opts cs. \<exists>x. leftRightDelim X delim h d opts m cs = Ok x"
  shows "\<exists>r. leftrightDelims X m left right options inner = Ok r"
proof -
  obtain h d hadMiddle where
    ext: "innerExtent X inner (num0 X) (num0 X) False = (h, d, hadMiddle)"
    by (cases "innerExtent X inner (num0 X) (num0 X) False")
  let ?H = "numMul X h (sizeMultiplier X options)"
  let ?D = "numMul X d (sizeMultiplier X options)"
  from L obtain l where l: "leftRightDelim X left ?H ?D options m [''mopen''] = Ok l"
    by blast
  from L obtain r where r: "leftRightDelim X right ?H ?D options m [''mclose''] = Ok r"
    by blast
  from resizeMiddles_returns [OF L] obtain ms where ms: "resizeMiddles X m ?H ?D inner = Ok ms"
    by blast
  show ?thesis
    using ext l r ms by (simp add: leftrightDelims_def Let_def)
qed

lemma leftright_builder_returns:
  assumes g: "glueOK X"
    and b: "buildGroups X body options = Ok groups"
    and L: "\<forall>delim h d opts cs. \<exists>x. leftRightDelim X delim h d opts m cs = Ok x"
  shows "\<exists>r. groupBuilder X (Leftright m (Some body) left right) options = Ok r"
proof -
  from buildExpression_returns [OF g b] obtain inner where
    "buildExpression X body options True (Some ''mopen'', Some ''mclose'') = Ok inner"
    by blast
  then show ?thesis
    using leftrightDelims_returns [OF L, of left right options inner] by auto
qed

text \<open>
  C4, as the code has it. When the builder of a \<^verbatim>\<open>\left...\right\<close> group returns, it
  returns the span made by \<^verbatim>\<open>makeSpan(["minner"], ...)\<close> of the left delimiter, the inner
  nodes and the right delimiter. The inner nodes are the elements of the array that
  \<^verbatim>\<open>buildExpression\<close> returned for the body. Each of the two delimiters is the null
  delimiter when its text is a dot, and otherwise what \<^verbatim>\<open>leftRightDelim\<close> returns for the
  inner height and depth: the running maxima (from 0) of the heights and depths of the
  elements that are not marked \<^verbatim>\<open>isMiddle\<close>, times \<^verbatim>\<open>options.sizeMultiplier\<close>. Every element
  that is marked \<^verbatim>\<open>isMiddle\<close> is replaced by what \<^verbatim>\<open>leftRightDelim\<close> returns for the same
  extent, its recorded delimiter and its recorded options; the other elements stay as
  they are, with what they hold. The recorded options are those the builder of \<^verbatim>\<open>\middle\<close>
  was called with. And the builder does return when the groups of the body build, the
  glue is a glue span and \<^verbatim>\<open>leftRightDelim\<close> returns.
\<close>

theorem leftright_builder:
  "(\<forall>r. groupBuilder X (Leftright m (Some body) left right) options = Ok r \<longrightarrow>
      (\<exists>inner leftDelim mids rightDelim.
           buildExpression X body options True (Some ''mopen'', Some ''mclose'') = Ok inner
         \<and> r = makeSpan X (Some [''minner'']) (Some (leftDelim # mids @ [rightDelim]))
                 (Some options) None
         \<and> hd (classes (fld r)) = ''minner''
         \<and> hd (children r) = leftDelim \<and> last (children r) = rightDelim
         \<and> (if left = ''.'' then leftDelim = makeNullDelimiter X options [''mopen'']
             else leftRightDelim X left
                    (numMul X (maxOver X height inner) (sizeMultiplier X options))
                    (numMul X (maxOver X depth inner) (sizeMultiplier X options))
                    options m [''mopen''] = Ok leftDelim)
         \<and> (if right = ''.'' then rightDelim = makeNullDelimiter X options [''mclose'']
             else leftRightDelim X right
                    (numMul X (maxOver X height inner) (sizeMultiplier X options))
                    (numMul X (maxOver X depth inner) (sizeMultiplier X options))
                    options m [''mclose''] = Ok rightDelim)
         \<and> length mids = length inner
         \<and> (\<forall>i < length inner.
               case isMiddle (fld (inner ! i)) of
                 Some (delim, opts) \<Rightarrow>
                   leftRightDelim X delim
                     (numMul X (maxOver X height inner) (sizeMultiplier X options))
                     (numMul X (maxOver X depth inner) (sizeMultiplier X options))
                     opts m [] = Ok (mids ! i)
               | None \<Rightarrow> mids ! i = inner ! i)
         \<and> (\<forall>delim d. delim \<noteq> ''.'' \<and> sizedDelim X delim 1 options m [] = Ok d \<longrightarrow>
               (\<exists>middleDelim. groupBuilder X (Middle m delim) options = Ok middleDelim
                  \<and> isMiddle (fld middleDelim) = Some (delim, options)))))
   \<and> (glueOK X \<and> (\<exists>groups. buildGroups X body options = Ok groups)
        \<and> (\<forall>delim h d opts cs. \<exists>x. leftRightDelim X delim h d opts m cs = Ok x) \<longrightarrow>
        (\<exists>r. groupBuilder X (Leftright m (Some body) left right) options = Ok r))"
proof (intro conjI allI impI)
  fix r
  assume "groupBuilder X (Leftright m (Some body) left right) options = Ok r"
  then show "\<exists>inner leftDelim mids rightDelim.
           buildExpression X body options True (Some ''mopen'', Some ''mclose'') = Ok inner
         \<and> r = makeSpan X (Some [''minner'']) (Some (leftDelim # mids @ [rightDelim]))
                 (Some options) None
         \<and> hd (classes (fld r)) = ''minner''
         \<and> hd (children r) = leftDelim \<and> last (children r) = rightDelim
         \<and> (if left = ''.'' then leftDelim = makeNullDelimiter X options [''mopen'']
             else leftRightDelim X left
                    (numMul X (maxOver X height inner) (sizeMultiplier X options))
                    (numMul X (maxOver X depth inner) (sizeMultiplier X options))
                    options m [''mopen''] = Ok leftDelim)
         \<and> (if right = ''.'' then rightDelim = makeNullDelimiter X options [''mclose'']
             else leftRightDelim X right
                    (numMul X (maxOver X height inner) (sizeMultiplier X options))
                    (numMul X (maxOver X depth inner) (sizeMultiplier X options))
                    options m [''mclose''] = Ok rightDelim)
         \<and> length mids = length inner
         \<and> (\<forall>i < length inner.
               case isMiddle (fld (inner ! i)) of
                 Some (delim, opts) \<Rightarrow>
                   leftRightDelim X delim
                     (numMul X (maxOver X height inner) (sizeMultiplier X options))
                     (numMul X (maxOver X depth inner) (sizeMultiplier X options))
                     opts m [] = Ok (mids ! i)
               | None \<Rightarrow> mids ! i = inner ! i)
         \<and> (\<forall>delim d. delim \<noteq> ''.'' \<and> sizedDelim X delim 1 options m [] = Ok d \<longrightarrow>
               (\<exists>middleDelim. groupBuilder X (Middle m delim) options = Ok middleDelim
                  \<and> isMiddle (fld middleDelim) = Some (delim, options)))"
    by (rule leftright_builder_shape)
next
  assume "glueOK X \<and> (\<exists>groups. buildGroups X body options = Ok groups)
        \<and> (\<forall>delim h d opts cs. \<exists>x. leftRightDelim X delim h d opts m cs = Ok x)"
  then obtain groups where g: "glueOK X"
    and b: "buildGroups X body options = Ok groups"
    and L: "\<forall>delim h d opts cs. \<exists>x. leftRightDelim X delim h d opts m cs = Ok x"
    by blast
  show "\<exists>r. groupBuilder X (Leftright m (Some body) left right) options = Ok r"
    by (rule leftright_builder_returns [OF g b L])
qed

theorem leftright_builder_witness:
  "\<exists>r. groupBuilder exampleExt
          (Leftright Math (Some [Mathord Math ''a'', Middle Math ''|'', Mathord Math ''b''])
             ''('' ''.'') [] = Ok r
     \<and> hd (classes (fld r)) = ''minner''
     \<and> leftRightDelim exampleExt ''('' 7 2 [] Math [''mopen''] = Ok (hd (children r))
     \<and> last (children r) = makeNullDelimiter exampleExt [] [''mclose'']
     \<and> leftRightDelim exampleExt ''|'' 7 2 [] Math [] = Ok (children r ! 2)"
proof -
  note T = leftright_builder [where X = exampleExt and m = Math
      and body = "[Mathord Math ''a'', Middle Math ''|'', Mathord Math ''b'']"
      and left = "''(''" and right = "''.''" and options = "[]"]
  have g: "buildGroups exampleExt [Mathord Math ''a'', Middle Math ''|'', Mathord Math ''b''] []
      = Ok [exSymbol ''a'' [''mord''] [] 7 2,
            Node ((fld (exSymbol ''|'' [] [] 1 1))\<lparr>isMiddle := Some (''|'', [])\<rparr>) [],
            exSymbol ''b'' [''mord''] [] 7 2]"
    by code_simp
  have lt: "\<forall>delim h d opts cs. \<exists>x. leftRightDelim exampleExt delim h d opts Math cs = Ok x"
    by (simp add: exampleExt_def)
  from T [THEN conjunct2] exampleExt_glueOK g lt obtain r where r: "groupBuilder exampleExt
      (Leftright Math (Some [Mathord Math ''a'', Middle Math ''|'', Mathord Math ''b''])
         ''('' ''.'') [] = Ok r"
    by blast
  have inner: "buildExpression exampleExt
      [Mathord Math ''a'', Middle Math ''|'', Mathord Math ''b''] [] True
      (Some ''mopen'', Some ''mclose'')
      = Ok [exSymbol ''a'' [''mord''] [] 7 2,
            Node ((fld (exSymbol ''|'' [] [] 1 1))\<lparr>isMiddle := Some (''|'', [])\<rparr>) [],
            exSymbol ''b'' [''mord''] [] 7 2]"
    by code_simp
  have mx: "maxOver exampleExt height
              [exSymbol ''a'' [''mord''] [] 7 2,
               Node ((fld (exSymbol ''|'' [] [] 1 1))\<lparr>isMiddle := Some (''|'', [])\<rparr>) [],
               exSymbol ''b'' [''mord''] [] 7 2] = 7"
    "maxOver exampleExt depth
              [exSymbol ''a'' [''mord''] [] 7 2,
               Node ((fld (exSymbol ''|'' [] [] 1 1))\<lparr>isMiddle := Some (''|'', [])\<rparr>) [],
               exSymbol ''b'' [''mord''] [] 7 2] = 2"
    by (simp_all add: maxOver_def exSymbol_def exampleExt_def)
  have ar: "numMul exampleExt 7 (sizeMultiplier exampleExt []) = 7"
    "numMul exampleExt 2 (sizeMultiplier exampleExt []) = 2"
    by (simp_all add: exampleExt_def)
  from T [THEN conjunct1, THEN spec, THEN mp, OF r] obtain inner' leftDelim mids rightDelim where
    i': "buildExpression exampleExt
           [Mathord Math ''a'', Middle Math ''|'', Mathord Math ''b''] [] True
           (Some ''mopen'', Some ''mclose'') = Ok inner'"
    and sp: "r = makeSpan exampleExt (Some [''minner''])
                   (Some (leftDelim # mids @ [rightDelim])) (Some []) None"
    and cl: "hd (classes (fld r)) = ''minner''"
    and ld: "if ''('' = ''.'' then leftDelim = makeNullDelimiter exampleExt [] [''mopen'']
             else leftRightDelim exampleExt ''(''
               (numMul exampleExt (maxOver exampleExt height inner') (sizeMultiplier exampleExt []))
               (numMul exampleExt (maxOver exampleExt depth inner') (sizeMultiplier exampleExt []))
               [] Math [''mopen''] = Ok leftDelim"
    and rd: "if ''.'' = ''.'' then rightDelim = makeNullDelimiter exampleExt [] [''mclose'']
             else leftRightDelim exampleExt ''.''
               (numMul exampleExt (maxOver exampleExt height inner') (sizeMultiplier exampleExt []))
               (numMul exampleExt (maxOver exampleExt depth inner') (sizeMultiplier exampleExt []))
               [] Math [''mclose''] = Ok rightDelim"
    and len: "length mids = length inner'"
    and all: "\<forall>i < length inner'.
               case isMiddle (fld (inner' ! i)) of
                 Some (delim, opts) \<Rightarrow>
                   leftRightDelim exampleExt delim
                     (numMul exampleExt (maxOver exampleExt height inner')
                        (sizeMultiplier exampleExt []))
                     (numMul exampleExt (maxOver exampleExt depth inner')
                        (sizeMultiplier exampleExt []))
                     opts Math [] = Ok (mids ! i)
               | None \<Rightarrow> mids ! i = inner' ! i"
    by blast
  let ?inner = "[exSymbol ''a'' [''mord''] [] 7 2,
            Node ((fld (exSymbol ''|'' [] [] 1 1))\<lparr>isMiddle := Some (''|'', [])\<rparr>) [],
            exSymbol ''b'' [''mord''] [] 7 2]"
  from i' inner have eq: "inner' = ?inner"
    by simp
  have hd': "numMul exampleExt (maxOver exampleExt height inner') (sizeMultiplier exampleExt []) = 7"
    "numMul exampleExt (maxOver exampleExt depth inner') (sizeMultiplier exampleExt []) = 2"
    unfolding eq mx by (rule ar)+
  have mid1: "isMiddle (fld (inner' ! 1)) = Some (''|'', [])"
    unfolding eq by simp
  have "1 < length inner'"
    unfolding eq by simp
  with all have "case isMiddle (fld (inner' ! 1)) of
                 Some (delim, opts) \<Rightarrow>
                   leftRightDelim exampleExt delim
                     (numMul exampleExt (maxOver exampleExt height inner')
                        (sizeMultiplier exampleExt []))
                     (numMul exampleExt (maxOver exampleExt depth inner')
                        (sizeMultiplier exampleExt []))
                     opts Math [] = Ok (mids ! 1)
               | None \<Rightarrow> mids ! 1 = inner' ! 1"
    by blast
  then have m1: "leftRightDelim exampleExt ''|'' 7 2 [] Math [] = Ok (mids ! 1)"
    unfolding mid1 hd' by simp
  have l1: "leftRightDelim exampleExt ''('' 7 2 [] Math [''mopen''] = Ok leftDelim"
    using ld unfolding hd' by simp
  have r1: "rightDelim = makeNullDelimiter exampleExt [] [''mclose'']"
    using rd by simp
  have ch: "children r = leftDelim # mids @ [rightDelim]"
    unfolding sp by simp
  have "length mids = 3"
    using len unfolding eq by simp
  then have "children r ! 2 = mids ! 1"
    unfolding ch by (simp add: nth_append)
  then show ?thesis
    using r cl l1 r1 m1 ch by simp
qed

text \<open>
  C4 as stated fails for a box marked \<^verbatim>\<open>isMiddle\<close> that is not an element of the built
  array but inside one. In \<^verbatim>\<open>\left( \href{u}{\middle|} a \right)\<close> the box of \<^verbatim>\<open>\middle\<close> is a
  child of the anchor: it keeps its mark and the extent 1 of \<^verbatim>\<open>sizedDelim\<close>, while the
  delimiter that \<^verbatim>\<open>leftRightDelim\<close> returns for it has the extent 7 and 2 of the inner
  nodes. In \<^verbatim>\<open>\left( \href{u}{\middle|} \right)\<close> the anchor that holds it is the only inner
  node, and its extent 1 is the one of the delimiters: the box is counted in the maxima.
\<close>

theorem nested_middle_not_resized:
  "groupBuilder exampleExt
     (Leftright Math (Some [Href Math ''u'' [Middle Math ''|''], Mathord Math ''a''])
        ''('' '')'') []
     = Ok (makeSpan exampleExt (Some [''minner''])
             (Some [exSymbol ''('' [''mopen''] [] 7 2,
                    makeAnchor exampleExt ''u'' []
                      [Node ((fld (exSymbol ''|'' [] [] 1 1))\<lparr>isMiddle := Some (''|'', [])\<rparr>) []]
                      [],
                    exSymbol ''a'' [''mord''] [] 7 2,
                    exSymbol '')'' [''mclose''] [] 7 2])
             (Some []) None)
   \<and> leftRightDelim exampleExt ''|'' 7 2 [] Math [] = Ok (exSymbol ''|'' [] [] 7 2)
   \<and> exSymbol ''|'' [] [] 7 2
       \<noteq> Node ((fld (exSymbol ''|'' [] [] 1 1))\<lparr>isMiddle := Some (''|'', [])\<rparr>) []
   \<and> groupBuilder exampleExt
       (Leftright Math (Some [Href Math ''u'' [Middle Math ''|'']]) ''('' '')'') []
       = Ok (makeSpan exampleExt (Some [''minner''])
               (Some [exSymbol ''('' [''mopen''] [] 1 1,
                      makeAnchor exampleExt ''u'' []
                        [Node ((fld (exSymbol ''|'' [] [] 1 1))\<lparr>isMiddle := Some (''|'', [])\<rparr>)
                           []]
                        [],
                      exSymbol '')'' [''mclose''] [] 1 1])
               (Some []) None)"
  by code_simp

text \<open>
  The same \<^verbatim>\<open>\middle\<close> in a \<^verbatim>\<open>\color\<close>: the fragment of the colour is spliced into the array,
  the box is an element of it and is replaced, with the recorded options (the colour).
\<close>

lemma middle_in_color_resized:
  "groupBuilder exampleExt
     (Leftright Math (Some [Color Math ''red'' [Middle Math ''|''], Mathord Math ''a''])
        ''('' '')'') []
     = Ok (makeSpan exampleExt (Some [''minner''])
             (Some [exSymbol ''('' [''mopen''] [] 7 2,
                    exSymbol ''|'' [] ''red'' 7 2,
                    exSymbol ''a'' [''mord''] [] 7 2,
                    exSymbol '')'' [''mclose''] [] 7 2])
             (Some []) None)"
  by code_simp

end
